theory Spec2Isabelle
  imports Main "HOL-Library.Word"
begin

section \<open>JavaScript strings\<close>

text \<open>
  A JavaScript string is a sequence of UTF-16 code units. Literals of the source that are
  plain ASCII are written \<open>js ''...''\<close>.
\<close>

type_synonym jsstring = "16 word list"

definition js :: "string \<Rightarrow> jsstring" where
  "js s = map of_char s"

text \<open>
  \<open>String.prototype.trim\<close> and the regular expression class \<open>\s\<close> use the same set:
  the WhiteSpace and LineTerminator code units of ECMAScript.
\<close>

definition isWhiteSpace :: "16 word \<Rightarrow> bool" where
  "isWhiteSpace c \<longleftrightarrow>
     c \<in> {0x9, 0xA, 0xB, 0xC, 0xD, 0x20, 0xA0, 0x1680, 0x2028, 0x2029, 0x202F, 0x205F,
          0x3000, 0xFEFF}
     \<or> (0x2000 \<le> c \<and> c \<le> 0x200A)"

definition trim :: "jsstring \<Rightarrow> jsstring" where
  "trim s = rev (dropWhile isWhiteSpace (rev (dropWhile isWhiteSpace s)))"

definition slash :: "16 word" where
  "slash = 0x2F"

text \<open>\<open>.replace(/^\/+/, '')\<close> and \<open>.replace(/\/+$/, '')\<close>.\<close>

definition stripLeadingSlashes :: "jsstring \<Rightarrow> jsstring" where
  "stripLeadingSlashes s = dropWhile (\<lambda>c. c = slash) s"

definition stripTrailingSlashes :: "jsstring \<Rightarrow> jsstring" where
  "stripTrailingSlashes s = rev (dropWhile (\<lambda>c. c = slash) (rev s))"

text \<open>
  \<open>.replace(/\s+/g, ' ')\<close>: every maximal run of white space becomes one space. The flag
  says whether the previous code unit belonged to a run that has already been replaced.
\<close>

fun collapseRun :: "bool \<Rightarrow> jsstring \<Rightarrow> jsstring" where
  "collapseRun inRun [] = []"
| "collapseRun inRun (c # cs) =
     (if isWhiteSpace c
      then (if inRun then collapseRun True cs else 0x20 # collapseRun True cs)
      else c # collapseRun False cs)"

definition collapseSpaces :: "jsstring \<Rightarrow> jsstring" where
  "collapseSpaces s = collapseRun False s"

text \<open>\<open>startsWith\<close> and \<open>includes\<close> compare code units.\<close>

definition startsWith :: "jsstring \<Rightarrow> jsstring \<Rightarrow> bool" where
  "startsWith s p \<longleftrightarrow> take (length p) s = p"

fun includes_str :: "jsstring \<Rightarrow> jsstring \<Rightarrow> bool" where
  "includes_str [] p = (p = [])"
| "includes_str (c # cs) p = (startsWith (c # cs) p \<or> includes_str cs p)"

subsection \<open>The Unicode data of the JavaScript engine\<close>

text \<open>
  \<open>toLowerCase\<close>, the property classes \<open>\p{L}\<close> and \<open>\p{N}\<close> and \<open>normalize('NFKD')\<close> are
  computed by the engine from the Unicode character database, which is no part of the
  repository. They are parameters of the model: \<open>isLetterOrNumber\<close> takes a code point,
  the other two a whole string.
\<close>

record unicode =
  toLowerCase :: "jsstring \<Rightarrow> jsstring"
  isLetterOrNumber :: "nat \<Rightarrow> bool"
  normalizeNFKD :: "jsstring \<Rightarrow> jsstring"

definition isHighSurrogate :: "16 word \<Rightarrow> bool" where
  "isHighSurrogate c \<longleftrightarrow> 0xD800 \<le> c \<and> c \<le> 0xDBFF"

definition isLowSurrogate :: "16 word \<Rightarrow> bool" where
  "isLowSurrogate c \<longleftrightarrow> 0xDC00 \<le> c \<and> c \<le> 0xDFFF"

definition codePoint :: "16 word \<Rightarrow> 16 word \<Rightarrow> nat" where
  "codePoint h l = 0x10000 + (unat h - 0xD800) * 0x400 + (unat l - 0xDC00)"

text \<open>
  \<open>.replace(/^[^\p{L}\p{N}]+/u, '')\<close>: with the \<open>u\<close> flag the expression reads code points,
  so a high surrogate followed by a low surrogate is one character; any other code unit
  is a character by itself.
\<close>

fun stripLeadingSymbols :: "unicode \<Rightarrow> jsstring \<Rightarrow> jsstring" where
  "stripLeadingSymbols U [] = []"
| "stripLeadingSymbols U [c] = (if isLetterOrNumber U (unat c) then [c] else [])"
| "stripLeadingSymbols U (h # l # cs) =
     (if isHighSurrogate h \<and> isLowSurrogate l
      then (if isLetterOrNumber U (codePoint h l) then h # l # cs
            else stripLeadingSymbols U cs)
      else (if isLetterOrNumber U (unat h) then h # l # cs
            else stripLeadingSymbols U (l # cs)))"

text \<open>
  The tables restricted to Basic Latin: only \<open>A\<close> to \<open>Z\<close> have a lower case, only the ASCII
  letters and digits are letters or numbers, and nothing decomposes. The engine's tables
  agree with these on every string of ASCII characters, also when it is decorated with the
  emoji U+1F4BB and U+1F9D1 and the joiner U+200D, which is what \<open>basicLatinData\<close> says.
\<close>

definition asciiLower :: "16 word \<Rightarrow> 16 word" where
  "asciiLower c = (if 0x41 \<le> c \<and> c \<le> 0x5A then c + 0x20 else c)"

definition asciiAlnum :: "nat \<Rightarrow> bool" where
  "asciiAlnum c \<longleftrightarrow> (0x30 \<le> c \<and> c \<le> 0x39) \<or> (0x41 \<le> c \<and> c \<le> 0x5A) \<or> (0x61 \<le> c \<and> c \<le> 0x7A)"

definition latinTables :: unicode where
  "latinTables = \<lparr>toLowerCase = map asciiLower, isLetterOrNumber = asciiAlnum,
                   normalizeNFKD = (\<lambda>s. s)\<rparr>"

definition decorated :: "16 word \<Rightarrow> bool" where
  "decorated c \<longleftrightarrow> c < 0x80 \<or> c \<in> {0x200D, 0xD83D, 0xDCBB, 0xD83E, 0xDDD1}"

definition basicLatinData :: "unicode \<Rightarrow> bool" where
  "basicLatinData U \<longleftrightarrow>
     (\<forall>s. list_all decorated s \<longrightarrow> toLowerCase U s = map asciiLower s) \<and>
     (\<forall>c. c < 0x80 \<longrightarrow> isLetterOrNumber U c = asciiAlnum c) \<and>
     \<not> isLetterOrNumber U 0x200D \<and>
     \<not> isLetterOrNumber U 0x1F4BB \<and>
     \<not> isLetterOrNumber U 0x1F9D1 \<and>
     (\<forall>s. list_all (\<lambda>c. c < 0x80) s \<longrightarrow> normalizeNFKD U s = s)"

section \<open>BookmarkManager: names and paths\<close>

text \<open>\<open>normalizeFolderName\<close>: the canonical key of a folder label.\<close>

definition normalizeFolderName :: "unicode \<Rightarrow> jsstring \<Rightarrow> jsstring" where
  "normalizeFolderName U name =
     normalizeNFKD U
       (stripLeadingSymbols U
         (collapseSpaces
           (stripTrailingSlashes
             (stripLeadingSlashes
               (trim (toLowerCase U name))))))"

text \<open>
  \<open>sanitizeFolderPath\<close>: \<open>map\<close>, \<open>filter\<close> and a second \<open>filter\<close> whose callback reads and
  updates the set \<open>seen\<close>; the set is threaded through the recursion.
\<close>

fun filterSeen :: "unicode \<Rightarrow> jsstring set \<Rightarrow> jsstring list \<Rightarrow> jsstring list" where
  "filterSeen U seen [] = []"
| "filterSeen U seen (p # ps) =
     (let key = normalizeFolderName U p
      in if key \<in> seen then filterSeen U seen ps
         else p # filterSeen U (insert key seen) ps)"

definition sanitizeFolderPath :: "unicode \<Rightarrow> jsstring list \<Rightarrow> jsstring list" where
  "sanitizeFolderPath U path =
     filterSeen U {} (filter (\<lambda>p. length p > 0) (map trim path))"

text \<open>
  The specification's wording of \<open>sanitize\<close>: trim, drop the empty segments, then keep a
  segment exactly when no earlier segment has its canonical key.
\<close>

definition firstOccurrences :: "('a \<Rightarrow> 'k) \<Rightarrow> 'a list \<Rightarrow> 'a list" where
  "firstOccurrences key xs =
     map (\<lambda>i. xs ! i) (filter (\<lambda>i. \<forall>j<i. key (xs ! j) \<noteq> key (xs ! i)) [0..<length xs])"

definition sanitize_spec :: "unicode \<Rightarrow> jsstring list \<Rightarrow> jsstring list" where
  "sanitize_spec U path =
     firstOccurrences (normalizeFolderName U) (filter (\<lambda>p. p \<noteq> []) (map trim path))"

text \<open>Two labels name the same folder when their canonical keys are equal.\<close>

definition sameFolder :: "unicode \<Rightarrow> jsstring \<Rightarrow> jsstring \<Rightarrow> bool" where
  "sameFolder U a b \<longleftrightarrow> normalizeFolderName U a = normalizeFolderName U b"

subsection \<open>Variants of a label\<close>

text \<open>
  A JavaScript string holds a code point as one code unit, or above U+FFFF as a high and a
  low surrogate. \<open>encodeCodePoints\<close> is the string of a list of code points; a scalar value is
  a code point that is no surrogate.
\<close>

definition scalarValue :: "nat \<Rightarrow> bool" where
  "scalarValue c \<longleftrightarrow> c < 0xD800 \<or> (0xE000 \<le> c \<and> c \<le> 0x10FFFF)"

definition encodeCodePoint :: "nat \<Rightarrow> jsstring" where
  "encodeCodePoint c =
     (if c < 0x10000 then [of_nat c]
      else [of_nat (0xD800 + (c - 0x10000) div 0x400),
            of_nat (0xDC00 + (c - 0x10000) mod 0x400)])"

definition encodeCodePoints :: "nat list \<Rightarrow> jsstring" where
  "encodeCodePoints cs = concat (map encodeCodePoint cs)"

text \<open>
  In the Unicode character database no white space character and not the slash is a letter
  or a number. The variants with other leading symbols depend on this fact of the engine's
  data, since \<open>trim\<close> and the two slash expressions run before the leading symbols go.
\<close>

definition separatorsAreSymbols :: "unicode \<Rightarrow> bool" where
  "separatorsAreSymbols U \<longleftrightarrow>
     (\<forall>c. isWhiteSpace c \<longrightarrow> \<not> isLetterOrNumber U (unat c)) \<and> \<not> isLetterOrNumber U 0x2F"

text \<open>
  Notions of the proofs: the steps of \<open>normalizeFolderName\<close> between \<open>toLowerCase\<close> and
  \<open>normalize\<close>, dropping at the end of a list, and the steps that are left once the white
  space and the slashes at the front are gone.
\<close>

definition keyOfLowered :: "unicode \<Rightarrow> jsstring \<Rightarrow> jsstring" where
  "keyOfLowered U r =
     stripLeadingSymbols U
       (collapseSpaces (stripTrailingSlashes (stripLeadingSlashes (trim r))))"

definition dropEnd :: "('a \<Rightarrow> bool) \<Rightarrow> 'a list \<Rightarrow> 'a list" where
  "dropEnd P xs = rev (dropWhile P (rev xs))"

definition afterTrailing :: "unicode \<Rightarrow> jsstring \<Rightarrow> jsstring" where
  "afterTrailing U t =
     stripLeadingSymbols U (collapseRun False (dropEnd (\<lambda>c. c = slash) t))"

definition afterLeading :: "unicode \<Rightarrow> jsstring \<Rightarrow> jsstring" where
  "afterLeading U r = afterTrailing U (stripLeadingSlashes (dropEnd isWhiteSpace r))"

section \<open>The Bookmark Store\<close>

text \<open>
  A \<open>BookmarkTreeNode\<close>. A node is a link when its \<open>url\<close> is truthy, that is present and
  not the empty string. The source reads \<open>children\<close> only as
  \<open>node.children && node.children.length > 0\<close>, so an absent list is the empty list here.
\<close>

datatype node = Node (nid: jsstring) (title: jsstring) (url: "jsstring option")
  (children: "node list")

definition isLink :: "node \<Rightarrow> bool" where
  "isLink n \<longleftrightarrow> (case url n of None \<Rightarrow> False | Some u \<Rightarrow> u \<noteq> [])"

datatype store_error = NoSuchNode | FolderNotEmpty | CannotRemoveRoot

text \<open>
  The store is \<open>chrome.bookmarks\<close>, an external collaborator: a tree with a single root,
  a counter from which the identifiers of new nodes are made, and the record of the
  identifiers that \<open>remove\<close> has been called with.
\<close>

record bstore =
  root :: node
  nextId :: nat
  removeCalls :: "jsstring list"

fun digit :: "nat \<Rightarrow> 16 word" where
  "digit n = of_nat (48 + n)"

function decimal :: "nat \<Rightarrow> jsstring" where
  "decimal n = (if n < 10 then [digit n] else decimal (n div 10) @ [digit (n mod 10)])"
  by pat_completeness auto
termination
  by (relation "measure (\<lambda>n. n)") auto

text \<open>The first node in preorder that has the identifier.\<close>

fun findNode :: "jsstring \<Rightarrow> node \<Rightarrow> node option"
  and findNodeIn :: "jsstring \<Rightarrow> node list \<Rightarrow> node option" where
  "findNode i (Node j t u cs) = (if j = i then Some (Node j t u cs) else findNodeIn i cs)"
| "findNodeIn i [] = None"
| "findNodeIn i (c # cs) =
     (case findNode i c of Some n \<Rightarrow> Some n | None \<Rightarrow> findNodeIn i cs)"

text \<open>Appending a child to that node, and taking that node out of its parent's list.\<close>

fun appendChild :: "jsstring \<Rightarrow> node \<Rightarrow> node \<Rightarrow> node"
  and appendChildIn :: "jsstring \<Rightarrow> node \<Rightarrow> node list \<Rightarrow> node list" where
  "appendChild i new (Node j t u cs) =
     (if j = i then Node j t u (cs @ [new]) else Node j t u (appendChildIn i new cs))"
| "appendChildIn i new [] = []"
| "appendChildIn i new (c # cs) =
     (if findNode i c \<noteq> None then appendChild i new c # cs
      else c # appendChildIn i new cs)"

fun deleteNode :: "jsstring \<Rightarrow> node \<Rightarrow> node"
  and deleteNodeIn :: "jsstring \<Rightarrow> node list \<Rightarrow> node list" where
  "deleteNode i (Node j t u cs) = Node j t u (deleteNodeIn i cs)"
| "deleteNodeIn i [] = []"
| "deleteNodeIn i (c # cs) =
     (if nid c = i then cs
      else if findNode i c \<noteq> None then deleteNode i c # cs
      else c # deleteNodeIn i cs)"

text \<open>\<open>chrome.bookmarks.getTree\<close>, \<open>getChildren\<close>, \<open>create\<close> (of a folder) and \<open>remove\<close>.\<close>

definition getTree :: "bstore \<Rightarrow> node list" where
  "getTree s = [root s]"

definition getChildren :: "bstore \<Rightarrow> jsstring \<Rightarrow> store_error + node list" where
  "getChildren s parentId =
     (case findNode parentId (root s) of
        None \<Rightarrow> Inl NoSuchNode
      | Some n \<Rightarrow> Inr (children n))"

definition createFolder :: "bstore \<Rightarrow> jsstring \<Rightarrow> jsstring \<Rightarrow> store_error + node \<times> bstore" where
  "createFolder s parentId ttl =
     (case findNode parentId (root s) of
        None \<Rightarrow> Inl NoSuchNode
      | Some _ \<Rightarrow>
          (let new = Node (decimal (nextId s)) ttl None []
           in Inr (new, s\<lparr>root := appendChild parentId new (root s),
                           nextId := Suc (nextId s)\<rparr>)))"

text \<open>
  \<open>remove\<close> deletes a link or an empty folder and fails on a folder that has children; the
  root has no parent to be taken from. Every call is recorded, also a failing one.
\<close>

definition remove :: "bstore \<Rightarrow> jsstring \<Rightarrow> store_error option \<times> bstore" where
  "remove s i =
     (let s' = s\<lparr>removeCalls := removeCalls s @ [i]\<rparr>
      in if nid (root s) = i then (Some CannotRemoveRoot, s')
         else (case findNode i (root s) of
                 None \<Rightarrow> (Some NoSuchNode, s')
               | Some n \<Rightarrow>
                   if children n \<noteq> [] then (Some FolderNotEmpty, s')
                   else (None, s'\<lparr>root := deleteNode i (root s)\<rparr>)))"

section \<open>BookmarkManager: resolving a path\<close>

text \<open>\<open>findFolder\<close>: the first child that is no link and has the canonical key of \<open>name\<close>.\<close>

definition findFolder :: "unicode \<Rightarrow> bstore \<Rightarrow> jsstring \<Rightarrow> jsstring \<Rightarrow> store_error + node option" where
  "findFolder U s parentId name =
     (case getChildren s parentId of
        Inl e \<Rightarrow> Inl e
      | Inr cs \<Rightarrow>
          (let target = normalizeFolderName U name
           in Inr (find (\<lambda>child. \<not> isLink child \<and> normalizeFolderName U (title child) = target) cs)))"

text \<open>
  The title of a created folder, \<open>rawName.trim().replace(/^\/+|\/+$/g, '')\<close>: the global
  expression removes the run of slashes at the start and the run at the end.
\<close>

definition folderTitle :: "jsstring \<Rightarrow> jsstring" where
  "folderTitle rawName = stripTrailingSlashes (stripLeadingSlashes (trim rawName))"

text \<open>
  The loop of \<open>ensureFolderPath\<close> with its variables \<open>currentId\<close> and \<open>previousNormalized\<close>;
  a rejected store call ends it with the error.
\<close>

fun ensureLoop :: "unicode \<Rightarrow> jsstring list \<Rightarrow> jsstring \<Rightarrow> jsstring option \<Rightarrow> bstore
    \<Rightarrow> store_error + jsstring \<times> bstore" where
  "ensureLoop U [] currentId previousNormalized s = Inr (currentId, s)"
| "ensureLoop U (rawName # rest) currentId previousNormalized s =
     (let normalized = normalizeFolderName U rawName
      in if previousNormalized = Some normalized
         then ensureLoop U rest currentId previousNormalized s
         else (case findFolder U s currentId rawName of
                 Inl e \<Rightarrow> Inl e
               | Inr (Some existingFolder) \<Rightarrow>
                   ensureLoop U rest (nid existingFolder) (Some normalized) s
               | Inr None \<Rightarrow>
                   (case createFolder s currentId (folderTitle rawName) of
                      Inl e \<Rightarrow> Inl e
                    | Inr (newFolder, s') \<Rightarrow>
                        ensureLoop U rest (nid newFolder) (Some normalized) s')))"

definition ensureFolderPath :: "unicode \<Rightarrow> jsstring list \<Rightarrow> bstore \<Rightarrow> store_error + jsstring \<times> bstore" where
  "ensureFolderPath U path s = ensureLoop U path (js ''1'') None s"

section \<open>BookmarkManager: removing empty folders\<close>

definition systemIds :: "jsstring list" where
  "systemIds = [js ''0'', js ''1'', js ''2'', js ''3'']"

text \<open>
  \<open>traverseAndRemove\<close> walks the tree that \<open>getTree\<close> returned and calls \<open>remove\<close> on the
  store; its state is the store and \<open>removedCount\<close>. \<open>traverseChildren\<close> is the \<open>for\<close> loop
  over the copy of the children, with the variable \<open>hasChildren\<close>.
\<close>

fun traverseAndRemove :: "node \<Rightarrow> bstore \<times> nat \<Rightarrow> bool \<times> bstore \<times> nat"
  and traverseChildren :: "node list \<Rightarrow> bool \<Rightarrow> bstore \<times> nat \<Rightarrow> bool \<times> bstore \<times> nat" where
  "traverseAndRemove (Node i t u cs) (s, removedCount) =
     (if isLink (Node i t u cs) then (False, s, removedCount)
      else (case (if cs \<noteq> [] then traverseChildren cs False (s, removedCount)
                  else (False, s, removedCount)) of
              (hasChildren, s1, removedCount1) \<Rightarrow>
                if \<not> hasChildren \<and> i \<notin> set systemIds
                then (case remove s1 i of
                        (None, s2) \<Rightarrow> (True, s2, Suc removedCount1)
                      | (Some e, s2) \<Rightarrow> (False, s2, removedCount1))
                else (\<not> hasChildren, s1, removedCount1)))"
| "traverseChildren [] hasChildren st = (hasChildren, st)"
| "traverseChildren (child # rest) hasChildren st =
     (case traverseAndRemove child st of
        (childRemovedOrEmpty, st1) \<Rightarrow>
          traverseChildren rest (if \<not> childRemovedOrEmpty then True else hasChildren) st1)"

definition removeEmptyFolders :: "bstore \<Rightarrow> nat \<times> bstore" where
  "removeEmptyFolders s =
     (case getTree s of
        [] \<Rightarrow> (0, s)
      | t # _ \<Rightarrow> (case traverseAndRemove t (s, 0) of (_, s', removedCount) \<Rightarrow> (removedCount, s')))"

text \<open>
  What a tree holds: its links in preorder, the identifiers of its links, and the
  identifiers of its folders (the nodes that are no links).
\<close>

fun links :: "node \<Rightarrow> (jsstring \<times> jsstring \<times> jsstring option) list"
  and linksIn :: "node list \<Rightarrow> (jsstring \<times> jsstring \<times> jsstring option) list" where
  "links (Node i t u cs) = (if isLink (Node i t u cs) then [(i, t, u)] else []) @ linksIn cs"
| "linksIn [] = []"
| "linksIn (c # cs) = links c @ linksIn cs"

definition linkIds :: "node \<Rightarrow> jsstring list" where
  "linkIds t = map fst (links t)"

fun folderIds :: "node \<Rightarrow> jsstring list"
  and folderIdsIn :: "node list \<Rightarrow> jsstring list" where
  "folderIds (Node i t u cs) = (if isLink (Node i t u cs) then [] else [i]) @ folderIdsIn cs"
| "folderIdsIn [] = []"
| "folderIdsIn (c # cs) = folderIds c @ folderIdsIn cs"

section \<open>LlmClassifier: providers\<close>

text \<open>
  An object that is read as an \<open>AIProvider\<close>. The entries of the table have the three
  properties; an object that lacks one gives \<open>undefined\<close> for it, \<open>None\<close> here.
\<close>

record provider =
  name :: "jsstring option"
  baseURL :: "jsstring option"
  model :: "jsstring option"

definition openai :: provider where
  "openai = \<lparr>name = Some (js ''OpenAI''), baseURL = Some (js ''https://api.openai.com/v1''),
              model = Some (js ''gpt-3.5-turbo'')\<rparr>"

definition moonshot :: provider where
  "moonshot = \<lparr>name = Some (js ''Moonshot (Kimi)''),
                baseURL = Some (js ''https://api.moonshot.ai/v1''),
                model = Some (js ''kimi-k2-0711-preview'')\<rparr>"

definition grok :: provider where
  "grok = \<lparr>name = Some (js ''Grok''), baseURL = Some (js ''https://api.x.ai/v1''),
            model = Some (js ''grok-beta'')\<rparr>"

definition openrouter :: provider where
  "openrouter = \<lparr>name = Some (js ''OpenRouter''),
                  baseURL = Some (js ''https://openrouter.ai/api/v1''),
                  model = Some (js ''openai/gpt-4o-mini'')\<rparr>"

definition groq :: provider where
  "groq = \<lparr>name = Some (js ''Groq''), baseURL = Some (js ''https://api.groq.com/openai/v1''),
            model = Some (js ''llama-3.3-70b-versatile'')\<rparr>"

definition copilot :: provider where
  "copilot = \<lparr>name = Some (js ''GitHub Copilot''),
               baseURL = Some (js ''https://api.githubcopilot.com''),
               model = Some (js ''gpt-4o'')\<rparr>"

text \<open>
  The table \<open>providers\<close> is an object literal, so reading it by key finds its six own
  properties and, for any other key, what it inherits from \<open>Object.prototype\<close>: a function,
  or for \<open>__proto__\<close> the prototype itself. Such a value is truthy and is no provider.
\<close>

datatype tableValue = Profile provider | Inherited

definition objectPrototypeKeys :: "jsstring list" where
  "objectPrototypeKeys =
     [js ''constructor'', js ''hasOwnProperty'', js ''isPrototypeOf'',
      js ''propertyIsEnumerable'', js ''toLocaleString'', js ''toString'', js ''valueOf'',
      js ''__proto__'', js ''__defineGetter__'', js ''__defineSetter__'',
      js ''__lookupGetter__'', js ''__lookupSetter__'']"

definition providers :: "jsstring \<Rightarrow> tableValue option" where
  "providers key =
     (if key = js ''openai'' then Some (Profile openai)
      else if key = js ''moonshot'' then Some (Profile moonshot)
      else if key = js ''grok'' then Some (Profile grok)
      else if key = js ''openrouter'' then Some (Profile openrouter)
      else if key = js ''groq'' then Some (Profile groq)
      else if key = js ''copilot'' then Some (Profile copilot)
      else if key \<in> set objectPrototypeKeys then Some Inherited
      else None)"

text \<open>
  The copy \<open>{ ...baseProvider }\<close> has the own enumerable properties of the value: those of a
  profile, and none of an inherited function or of the prototype.
\<close>

definition spreadCopy :: "tableValue \<Rightarrow> provider" where
  "spreadCopy v =
     (case v of
        Profile p \<Rightarrow> p
      | Inherited \<Rightarrow> \<lparr>name = None, baseURL = None, model = None\<rparr>)"

definition detectProvider :: "jsstring \<Rightarrow> provider" where
  "detectProvider apiKey =
     (if startsWith apiKey (js ''gho_'') \<or> startsWith apiKey (js ''github_pat_'') then copilot
      else if startsWith apiKey (js ''gsk_'') then groq
      else if startsWith apiKey (js ''sk-'') \<and> \<not> includes_str apiKey (js ''kimi'')
              \<and> \<not> includes_str apiKey (js ''or-v1'') then openai
      else if startsWith apiKey (js ''sk-or-v1-'') \<or> includes_str apiKey (js ''openrouter'')
        then openrouter
      else if includes_str apiKey (js ''kimi'') \<or> length apiKey > 40 then moonshot
      else if includes_str apiKey (js ''grok'') \<or> startsWith apiKey (js ''xai-'') then grok
      else openrouter)"

section \<open>LlmClassifier: values, errors and the outside world\<close>

text \<open>
  A parsed JSON value. A number is the IEEE 754 double that \<open>JSON.parse\<close> made, given by
  its 64 bits; it is falsy when it is a zero or a NaN.
\<close>

datatype json = JNull | JBool bool | JNumber "64 word" | JString jsstring
  | JArray "json list" | JObject "(jsstring \<times> json) list"

definition falsyNumber :: "64 word \<Rightarrow> bool" where
  "falsyNumber w \<longleftrightarrow>
     (let magnitude = take_bit 63 w
      in magnitude = 0 \<or> magnitude > 0x7FF0000000000000)"

fun truthy :: "json \<Rightarrow> bool" where
  "truthy JNull = False"
| "truthy (JBool b) = b"
| "truthy (JNumber w) = (\<not> falsyNumber w)"
| "truthy (JString s) = (s \<noteq> [])"
| "truthy (JArray xs) = True"
| "truthy (JObject kvs) = True"

definition truthyString :: "jsstring option \<Rightarrow> bool" where
  "truthyString v \<longleftrightarrow> (case v of None \<Rightarrow> False | Some s \<Rightarrow> s \<noteq> [])"

text \<open>
  A thrown value: an \<open>OpenAI.APIError\<close> with its \<open>status\<close> (a number or \<open>undefined\<close>) and
  message, any other \<open>Error\<close> with its message, or a value that is no \<open>Error\<close>.
\<close>

datatype js_error = APIError "nat option" jsstring | Error jsstring | ThrownValue

record clientConfig =
  cfgApiKey :: "jsstring option"
  cfgBaseURL :: "jsstring option"
  cfgCopilotHeaders :: bool

record request =
  reqConfig :: clientConfig
  reqModel :: "jsstring option"
  reqUrl :: jsstring
  reqTitle :: jsstring
  reqExistingFolders :: "jsstring list"

datatype fetch_result = FetchRejected | Response bool "jsstring option option"

text \<open>
  What the collaborators answer during one call.
  \<^item> \<open>getApiKey\<close>. Modelled from the spec: \<open>SecurityManager.getApiKey\<close> (\<open>security.ts\<close>), the Secret
    Store's \<open>get() -> credential|absent\<close>.
  \<^item> \<open>getProviderPreference\<close>. Modelled from the spec: the function of that name in
    \<open>openrouter.ts\<close>, a string or unset; \<open>None\<close> is a rejected read, which the source catches.
  \<^item> \<open>selectedModelReadable\<close>: whether \<open>getSelectedOpenRouterModel\<close> answers or rejects.
  \<^item> \<open>fetchCopilotToken\<close>: the answer of \<open>fetch\<close> to the token exchange: rejected, or a response
    with its \<open>ok\<close> flag and, when its body can be read as an object, that object's \<open>token\<close>.
  \<^item> \<open>clientError\<close>: the error that \<open>new OpenAI(config)\<close> throws, if it throws.
  \<^item> \<open>complete\<close>: the outcome of the \<open>n\<close>-th call of \<open>client.chat.completions.create\<close>: an error,
    or the \<open>content\<close> of the first choice (\<open>None\<close> for \<open>null\<close>).
  \<^item> \<open>chooseDefaultOpenRouterModel\<close>. Modelled from the spec: the function of that name in
    \<open>openrouter.ts\<close>, the Inference Client's \<open>discoverDefaultModel(credential) -> modelId|none\<close>.
  \<^item> \<open>parseJSON\<close>: \<open>JSON.parse\<close>, the message of its \<open>SyntaxError\<close> on the left.
  \<^item> \<open>nullReadMessage\<close>: the message of the \<open>TypeError\<close> for reading a property of \<open>null\<close>.
\<close>

record env =
  getApiKey :: "jsstring option"
  getProviderPreference :: "jsstring option option"
  selectedModelReadable :: bool
  fetchCopilotToken :: "jsstring \<Rightarrow> fetch_result"
  clientError :: "clientConfig \<Rightarrow> js_error option"
  complete :: "nat \<Rightarrow> request \<Rightarrow> js_error + jsstring option"
  chooseDefaultOpenRouterModel :: "jsstring \<Rightarrow> jsstring option"
  parseJSON :: "jsstring \<Rightarrow> jsstring + json"
  nullReadMessage :: jsstring

text \<open>
  The state outside the classifier that a call changes: the persisted model choice, and the
  requests made so far. Modelled from the spec: \<open>getSelectedOpenRouterModel\<close>,
  \<open>clearSelectedOpenRouterModel\<close> and \<open>setSelectedOpenRouterModel\<close> of \<open>openrouter.ts\<close> read, unset
  and write the persisted selected model, a string or unset.
\<close>

datatype call = LoadPreferences | CopilotTokenRequest jsstring | Completion request
  | ClearSelectedModel | ChooseDefaultModel jsstring | SetSelectedModel jsstring

record world =
  persistedModel :: "jsstring option"
  calls :: "call list"

definition clearSelectedOpenRouterModel :: "world \<Rightarrow> world" where
  "clearSelectedOpenRouterModel w =
     w\<lparr>persistedModel := None, calls := calls w @ [ClearSelectedModel]\<rparr>"

definition setSelectedOpenRouterModel :: "jsstring \<Rightarrow> world \<Rightarrow> world" where
  "setSelectedOpenRouterModel m w =
     w\<lparr>persistedModel := Some m, calls := calls w @ [SetSelectedModel m]\<rparr>"

text \<open>The fields of the \<open>LlmClassifier\<close> instance.\<close>

record classifier =
  apiKey :: "jsstring option"
  providerOverride :: "jsstring option"
  selectedOpenRouterModel :: "jsstring option"

record classification =
  folderPath :: "json list"
  tags :: json

section \<open>LlmClassifier: classifyUrl\<close>

definition apiKeyNotConfigured :: jsstring where
  "apiKeyNotConfigured = js ''API key not configured. Please save your API key first.''"

definition copilotAuthFailed :: jsstring where
  "copilotAuthFailed = js ''Failed to authenticate with GitHub Copilot. Ensure you have Copilot Pro enabled on your account.''"

definition noFallbackModel :: jsstring where
  "noFallbackModel = js ''No fallback OpenRouter model available.''"

definition noResponseContent :: jsstring where
  "noResponseContent = js ''No response content received from AI provider''"

definition missingFolderPath :: jsstring where
  "missingFolderPath = js ''Invalid response format: missing folderPath''"

definition invalidApiKey :: jsstring where
  "invalidApiKey = js ''Invalid API key. Please check your credentials.''"

definition rateLimitExceeded :: jsstring where
  "rateLimitExceeded = js ''Rate limit exceeded. Please try again later.''"

definition accessForbidden :: jsstring where
  "accessForbidden = js ''API access forbidden. Check your API key permissions.''"

text \<open>The template \<open>`API Error (${error.status}): ${error.message}`\<close>.\<close>

definition apiErrorMessage :: "nat option \<Rightarrow> jsstring \<Rightarrow> jsstring" where
  "apiErrorMessage status message =
     js ''API Error ('' @ (case status of None \<Rightarrow> js ''undefined'' | Some n \<Rightarrow> decimal n)
       @ js ''): '' @ message"

definition classificationFailed :: "jsstring \<Rightarrow> jsstring" where
  "classificationFailed message = js ''Classification failed: '' @ message"

definition loadApiKey :: "env \<Rightarrow> classifier \<Rightarrow> classifier" where
  "loadApiKey E cl = cl\<lparr>apiKey := map_option trim (getApiKey E)\<rparr>"

text \<open>
  \<open>loadPreferences\<close>: a rejected read leaves the field, and the fields after it, as they
  were.
\<close>

definition loadPreferences :: "env \<Rightarrow> world \<Rightarrow> classifier \<Rightarrow> classifier" where
  "loadPreferences E w cl =
     (case getProviderPreference E of
        None \<Rightarrow> cl
      | Some preference \<Rightarrow>
          (let cl1 = cl\<lparr>providerOverride := preference\<rparr>
           in if selectedModelReadable E
              then cl1\<lparr>selectedOpenRouterModel := persistedModel w\<rparr>
              else cl1))"

text \<open>
  \<open>getGitHubCopilotToken\<close>: whatever goes wrong inside its \<open>try\<close> is caught and replaced by
  the one error.
\<close>

definition getGitHubCopilotToken :: "env \<Rightarrow> jsstring \<Rightarrow> js_error + jsstring option" where
  "getGitHubCopilotToken E githubToken =
     (case fetchCopilotToken E githubToken of
        FetchRejected \<Rightarrow> Inl (Error copilotAuthFailed)
      | Response ok body \<Rightarrow>
          if \<not> ok then Inl (Error copilotAuthFailed)
          else (case body of
                  None \<Rightarrow> Inl (Error copilotAuthFailed)
                | Some token \<Rightarrow> Inr token))"

text \<open>Lines 123 to 130: the provider of the call, with the model override.\<close>

definition selectProvider :: "classifier \<Rightarrow> jsstring \<Rightarrow> provider" where
  "selectProvider cl key =
     (let baseProvider =
            (case providerOverride cl of
               None \<Rightarrow> Profile (detectProvider key)
             | Some override \<Rightarrow>
                 if override \<noteq> [] then
                   (case providers override of
                      Some v \<Rightarrow> v
                    | None \<Rightarrow> Profile (detectProvider key))
                 else Profile (detectProvider key));
          prov = spreadCopy baseProvider
      in case selectedOpenRouterModel cl of
           None \<Rightarrow> prov
         | Some selected \<Rightarrow>
             if name prov = Some (js ''OpenRouter'') \<and> selected \<noteq> []
             then prov\<lparr>model := Some selected\<rparr>
             else prov)"

text \<open>
  \<open>result.replace(/```json\n?|\n?```/g, '')\<close>. At each position the first alternative is
  tried before the second, and \<open>\n?\<close> takes the line feed when it can. The counter is the
  number of code units of the current match that are still to be dropped.
\<close>

definition fence :: jsstring where
  "fence = [0x60, 0x60, 0x60]"

fun stripFences :: "nat \<Rightarrow> jsstring \<Rightarrow> jsstring" where
  "stripFences k [] = []"
| "stripFences (Suc k) (c # cs) = stripFences k cs"
| "stripFences 0 (c # cs) =
     (if startsWith (c # cs) (fence @ js ''json'')
      then (if startsWith (drop 6 cs) [0x0A] then stripFences 7 cs else stripFences 6 cs)
      else if startsWith (c # cs) (0x0A # fence) then stripFences 3 cs
      else if startsWith (c # cs) fence then stripFences 2 cs
      else c # stripFences 0 cs)"

definition cleanResult :: "jsstring \<Rightarrow> jsstring" where
  "cleanResult result = trim (stripFences 0 result)"

text \<open>
  Reading the property \<open>folderPath\<close> or \<open>tags\<close> of a parsed value: \<open>null\<close> has no properties
  (a \<open>TypeError\<close>, \<open>None\<close> here), an object has what it holds (\<open>JSON.parse\<close> gives each key
  once), and no other value has either of the two.
\<close>

fun getProperty :: "json \<Rightarrow> jsstring \<Rightarrow> json option option" where
  "getProperty JNull key = None"
| "getProperty (JObject kvs) key = Some (map_of kvs key)"
| "getProperty v key = Some None"

text \<open>Lines 305 to 317.\<close>

definition parseResponse :: "env \<Rightarrow> jsstring \<Rightarrow> js_error + classification" where
  "parseResponse E result =
     (if result = [] then Inl (Error noResponseContent)
      else (case parseJSON E (cleanResult result) of
              Inl message \<Rightarrow> Inl (Error message)
            | Inr parsed \<Rightarrow>
                (case getProperty parsed (js ''folderPath'') of
                   None \<Rightarrow> Inl (Error (nullReadMessage E))
                 | Some (Some (JArray xs)) \<Rightarrow>
                     Inr \<lparr>folderPath = take 3 xs,
                          tags = (case getProperty parsed (js ''tags'') of
                                    Some (Some t) \<Rightarrow> if truthy t then t else JArray []
                                  | _ \<Rightarrow> JArray [])\<rparr>
                 | Some _ \<Rightarrow> Inl (Error missingFolderPath))))"

text \<open>\<open>attemptClassification\<close>, the \<open>n\<close>-th completion request of the call.\<close>

definition attemptClassification :: "env \<Rightarrow> nat \<Rightarrow> request \<Rightarrow> world \<Rightarrow> (js_error + jsstring) \<times> world" where
  "attemptClassification E n req w =
     (case complete E n req of
        Inl e \<Rightarrow> Inl e
      | Inr content \<Rightarrow> Inr (case content of None \<Rightarrow> [] | Some c \<Rightarrow> c),
      w\<lparr>calls := calls w @ [Completion req]\<rparr>)"

definition isNotFound :: "js_error \<Rightarrow> bool" where
  "isNotFound err \<longleftrightarrow> (case err of APIError status _ \<Rightarrow> status = Some 404 | _ \<Rightarrow> False)"

text \<open>Lines 280 to 303: the first attempt and the fallback.\<close>

definition runAttempts :: "env \<Rightarrow> jsstring \<Rightarrow> provider \<Rightarrow> request \<Rightarrow> world
    \<Rightarrow> (js_error + jsstring) \<times> world" where
  "runAttempts E key prov req w =
     (let retried = False
      in case attemptClassification E 0 req w of
           (Inr result, w1) \<Rightarrow> (Inr result, w1)
         | (Inl err, w1) \<Rightarrow>
             if name prov = Some (js ''OpenRouter'') \<and> isNotFound err \<and> \<not> retried
             then (let w2 = clearSelectedOpenRouterModel w1;
                       fallback = chooseDefaultOpenRouterModel E key;
                       w3 = w2\<lparr>calls := calls w2 @ [ChooseDefaultModel key]\<rparr>
                   in case fallback of
                        None \<Rightarrow> (Inl (Error noFallbackModel), w3)
                      | Some m \<Rightarrow>
                          if m \<noteq> []
                          then attemptClassification E 1 (req\<lparr>reqModel := Some m\<rparr>)
                                 (setSelectedOpenRouterModel m w3)
                          else (Inl (Error noFallbackModel), w3))
             else (Inl err, w1))"

text \<open>Lines 318 to 333: the outer \<open>catch\<close>.\<close>

definition translateError :: "js_error \<Rightarrow> js_error" where
  "translateError err =
     (case err of
        APIError status message \<Rightarrow>
          if status = Some 401 then Error invalidApiKey
          else if status = Some 429 then Error rateLimitExceeded
          else if status = Some 403 then Error accessForbidden
          else Error (apiErrorMessage status message)
      | Error message \<Rightarrow> Error (classificationFailed message)
      | ThrownValue \<Rightarrow> Error (classificationFailed (js ''Unknown error occurred'')))"

text \<open>
  What the outer \<open>try\<close> makes of the outcome of the attempts: an error is translated, a
  result is parsed, and an error from parsing is translated as well.
\<close>

definition finishClassification :: "env \<Rightarrow> js_error + jsstring \<Rightarrow> js_error + classification" where
  "finishClassification E outcome =
     (case outcome of
        Inl e \<Rightarrow> Inl (translateError e)
      | Inr result \<Rightarrow>
          (case parseResponse E result of
             Inl e \<Rightarrow> Inl (translateError e)
           | Inr r \<Rightarrow> Inr r))"

text \<open>
  \<open>classifyUrl\<close>. Up to the construction of the client an error leaves the function as it
  is; from the first attempt on it passes through the outer \<open>catch\<close>.
\<close>

definition classifyUrl :: "env \<Rightarrow> classifier \<Rightarrow> world \<Rightarrow> jsstring \<Rightarrow> jsstring \<Rightarrow> jsstring list
    \<Rightarrow> (js_error + classification) \<times> classifier \<times> world" where
  "classifyUrl E cl w pageUrl pageTitle existingFolders =
     (let cl1 = loadApiKey E cl
      in case apiKey cl1 of
           None \<Rightarrow> (Inl (Error apiKeyNotConfigured), cl1, w)
         | Some key \<Rightarrow>
             if key = [] then (Inl (Error apiKeyNotConfigured), cl1, w)
             else
               (let cl2 = loadPreferences E w cl1;
                    w1 = w\<lparr>calls := calls w @ [LoadPreferences]\<rparr>;
                    prov = selectProvider cl2 key
                in case (if name prov = Some (js ''GitHub Copilot'')
                         then (getGitHubCopilotToken E key,
                               w1\<lparr>calls := calls w1 @ [CopilotTokenRequest key]\<rparr>)
                         else (Inr (Some key), w1)) of
                     (Inl e, w2) \<Rightarrow> (Inl e, cl2, w2)
                   | (Inr actualApiKey, w2) \<Rightarrow>
                       (let config = \<lparr>cfgApiKey = actualApiKey, cfgBaseURL = baseURL prov,
                                      cfgCopilotHeaders =
                                        (name prov = Some (js ''GitHub Copilot''))\<rparr>;
                            req = \<lparr>reqConfig = config, reqModel = model prov, reqUrl = pageUrl,
                                   reqTitle = pageTitle, reqExistingFolders = existingFolders\<rparr>
                        in case clientError E config of
                             Some e \<Rightarrow> (Inl e, cl2, w2)
                           | None \<Rightarrow>
                               (case runAttempts E key prov req w2 of
                                  (outcome, w3) \<Rightarrow>
                                    (finishClassification E outcome, cl2, w3)))))"

section \<open>Properties of a sweep, and example data\<close>

text \<open>
  What a part of the sweep may do to the store and to \<open>removedCount\<close>: it calls \<open>remove\<close>
  only with identifiers from \<open>ids\<close>; and when none of these is the identifier of a link in
  the store, it leaves the links as they are and counts one for each folder that is gone.
\<close>

definition sweepPost :: "jsstring list \<Rightarrow> bstore \<times> nat \<Rightarrow> bstore \<times> nat \<Rightarrow> bool" where
  "sweepPost ids st st' \<longleftrightarrow>
     (\<exists>cs. removeCalls (fst st') = removeCalls (fst st) @ cs \<and> set cs \<subseteq> set ids) \<and>
     (set ids \<inter> set (linkIds (root (fst st))) = {} \<longrightarrow>
        links (root (fst st')) = links (root (fst st)) \<and>
        snd st' + length (folderIds (root (fst st')))
          = snd st + length (folderIds (root (fst st))))"

text \<open>
  The protected identifiers are left alone: \<open>remove\<close> is not called with one of them, and
  one that the store holds is still held afterwards.
\<close>

definition keepsSystemRoots :: "bstore \<times> nat \<Rightarrow> bstore \<times> nat \<Rightarrow> bool" where
  "keepsSystemRoots st st' \<longleftrightarrow>
     (\<exists>cs. removeCalls (fst st') = removeCalls (fst st) @ cs \<and> set cs \<inter> set systemIds = {}) \<and>
     (\<forall>i \<in> set systemIds. findNode i (root (fst st)) \<noteq> None \<longrightarrow> findNode i (root (fst st')) \<noteq> None)"

text \<open>The labels \<open>"\<dots> Technology"\<close> decorated with U+1F4BB, and with U+1F9D1 U+200D U+1F4BB.\<close>

definition laptopTechnology :: jsstring where
  "laptopTechnology = [0xD83D, 0xDCBB] @ js '' Technology''"

definition technologistTechnology :: jsstring where
  "technologistTechnology = [0xD83E, 0xDDD1, 0x200D, 0xD83D, 0xDCBB] @ js '' technology ''"

text \<open>A store as the browser sets it up, and the subtree of its bookmarks bar replaced.\<close>

definition chromeStore :: bstore where
  "chromeStore =
     \<lparr>root = Node (js ''0'') [] None
        [Node (js ''1'') (js ''Bookmarks bar'') None [],
         Node (js ''2'') (js ''Other bookmarks'') None []],
      nextId = 5, removeCalls = []\<rparr>"

definition withBar :: "node list \<Rightarrow> nat \<Rightarrow> bstore" where
  "withBar cs n =
     \<lparr>root = Node (js ''0'') [] None
        [Node (js ''1'') (js ''Bookmarks bar'') None cs,
         Node (js ''2'') (js ''Other bookmarks'') None []],
      nextId = n, removeCalls = []\<rparr>"

definition exampleLink :: node where
  "exampleLink = Node (js ''7'') (js ''Isabelle'') (Some (js ''https://isabelle.in.tum.de/'')) []"

text \<open>
  Collaborators for examples: a stored credential, the outcome of each completion request,
  the model that discovery offers, and what \<open>JSON.parse\<close> answers. No preference is set, the
  client can be constructed.
\<close>

definition exampleEnv :: "jsstring option \<Rightarrow> (nat \<Rightarrow> js_error + jsstring option) \<Rightarrow> jsstring option
    \<Rightarrow> jsstring + json \<Rightarrow> env" where
  "exampleEnv key outcomes fallback parsed =
     \<lparr>getApiKey = key, getProviderPreference = Some None, selectedModelReadable = True,
      fetchCopilotToken = (\<lambda>_. FetchRejected), clientError = (\<lambda>_. None),
      complete = (\<lambda>n _. outcomes n), chooseDefaultOpenRouterModel = (\<lambda>_. fallback),
      parseJSON = (\<lambda>_. parsed),
      nullReadMessage = js ''Cannot read properties of null''\<rparr>"

definition freshClassifier :: classifier where
  "freshClassifier = \<lparr>apiKey = None, providerOverride = None, selectedOpenRouterModel = None\<rparr>"

definition freshWorld :: world where
  "freshWorld = \<lparr>persistedModel = None, calls = []\<rparr>"

definition openRouterKey :: jsstring where
  "openRouterKey = js ''sk-or-v1-0123456789''"

definition xaiKey :: jsstring where
  "xaiKey = js ''xai-0123456789abcdefghijABCDEFGHIJ0123456789''"

definition notFound :: "js_error + jsstring option" where
  "notFound = Inl (APIError (Some 404) (js ''model not found''))"

definition fiveFolders :: "json list" where
  "fiveFolders = [JString (js ''A''), JString (js ''B''), JString (js ''C''),
                  JString (js ''D''), JString (js ''E'')]"

text \<open>
  An answer as a model gives it: the JSON text of an object whose \<open>folderPath\<close> has five
  elements and that has no \<open>tags\<close>, inside a code fence. \<open>parsingEnv\<close> has \<open>JSON.parse\<close> for this
  one text, which is the only text that the examples parse.
\<close>

definition quoted :: "jsstring \<Rightarrow> jsstring" where
  "quoted s = 0x22 # s @ [0x22]"

definition folderPathText :: jsstring where
  "folderPathText =
     js ''{'' @ quoted (js ''folderPath'') @ js '':['' @ quoted (js ''A'') @ js '','' @
     quoted (js ''B'') @ js '','' @ quoted (js ''C'') @ js '','' @ quoted (js ''D'') @ js '','' @
     quoted (js ''E'') @ js '']}''"

definition fencedAnswer :: jsstring where
  "fencedAnswer = fence @ js ''json'' @ [0x0A] @ folderPathText @ [0x0A] @ fence"

definition folderPathObject :: json where
  "folderPathObject = JObject [(js ''folderPath'', JArray fiveFolders)]"

definition parsingEnv :: "jsstring option \<Rightarrow> (nat \<Rightarrow> js_error + jsstring option) \<Rightarrow> jsstring option
    \<Rightarrow> env" where
  "parsingEnv key outcomes fallback =
     (exampleEnv key outcomes fallback (Inl (js ''Unexpected token'')))
       \<lparr>parseJSON := (\<lambda>text. if text = folderPathText then Inr folderPathObject
                              else Inl (js ''Unexpected token''))\<rparr>"

section \<open>Evaluating strings\<close>

lemmas string_eval = js_def trim_def isWhiteSpace_def slash_def stripLeadingSlashes_def
  stripTrailingSlashes_def collapseSpaces_def isHighSurrogate_def isLowSurrogate_def
  codePoint_def asciiLower_def asciiAlnum_def decorated_def

lemma latinTables_basic: "basicLatinData latinTables"
  by (simp add: basicLatinData_def latinTables_def asciiAlnum_def list_all_iff)

lemma basic_toLowerCase:
  "basicLatinData U \<Longrightarrow> list_all decorated s \<Longrightarrow> toLowerCase U s = map asciiLower s"
  unfolding basicLatinData_def by blast

lemma basic_letter:
  "basicLatinData U \<Longrightarrow> c < 0x80 \<Longrightarrow> isLetterOrNumber U c = asciiAlnum c"
  unfolding basicLatinData_def by blast

lemma basic_symbols:
  "basicLatinData U \<Longrightarrow> \<not> isLetterOrNumber U 0x200D"
  "basicLatinData U \<Longrightarrow> \<not> isLetterOrNumber U 0x1F4BB"
  "basicLatinData U \<Longrightarrow> \<not> isLetterOrNumber U 0x1F9D1"
  unfolding basicLatinData_def by blast+

lemma basic_NFKD:
  "basicLatinData U \<Longrightarrow> list_all (\<lambda>c. c < 0x80) s \<Longrightarrow> normalizeNFKD U s = s"
  unfolding basicLatinData_def by blast

lemma normalize_laptopTechnology:
  assumes "basicLatinData U"
  shows "normalizeFolderName U laptopTechnology = js ''technology''"
proof -
  have "toLowerCase U laptopTechnology = [0xD83D, 0xDCBB] @ js '' technology''"
    by (subst basic_toLowerCase[OF assms]) (simp_all add: laptopTechnology_def string_eval)
  moreover have "normalizeNFKD U (js ''technology'') = js ''technology''"
    by (rule basic_NFKD[OF assms]) (simp add: js_def)
  ultimately show ?thesis
    using basic_symbols[OF assms]
    by (simp add: normalizeFolderName_def string_eval basic_letter[OF assms])
qed

lemma normalize_technologistTechnology:
  assumes "basicLatinData U"
  shows "normalizeFolderName U technologistTechnology = js ''technology''"
proof -
  have "toLowerCase U technologistTechnology = technologistTechnology"
    by (subst basic_toLowerCase[OF assms]) (simp_all add: technologistTechnology_def string_eval)
  moreover have "normalizeNFKD U (js ''technology'') = js ''technology''"
    by (rule basic_NFKD[OF assms]) (simp add: js_def)
  ultimately show ?thesis
    using basic_symbols[OF assms]
    by (simp add: normalizeFolderName_def technologistTechnology_def string_eval basic_letter[OF assms])
qed

lemma normalize_tech_nology:
  assumes "basicLatinData U"
  shows "normalizeFolderName U (js ''tech nology'') = js ''tech nology''"
proof -
  have "toLowerCase U (js ''tech nology'') = js ''tech nology''"
    by (subst basic_toLowerCase[OF assms]) (simp_all add: string_eval)
  moreover have "normalizeNFKD U (js ''tech nology'') = js ''tech nology''"
    by (rule basic_NFKD[OF assms]) (simp add: js_def)
  ultimately show ?thesis
    by (simp add: normalizeFolderName_def string_eval basic_letter[OF assms])
qed

lemma normalize_News:
  assumes "basicLatinData U"
  shows "normalizeFolderName U (js ''News'') = js ''news''"
proof -
  have "toLowerCase U (js ''News'') = js ''news''"
    by (subst basic_toLowerCase[OF assms]) (simp_all add: string_eval)
  moreover have "normalizeNFKD U (js ''news'') = js ''news''"
    by (rule basic_NFKD[OF assms]) (simp add: js_def)
  ultimately show ?thesis
    by (simp add: normalizeFolderName_def string_eval basic_letter[OF assms])
qed

lemma normalize_World:
  assumes "basicLatinData U"
  shows "normalizeFolderName U (js ''World'') = js ''world''"
proof -
  have "toLowerCase U (js ''World'') = js ''world''"
    by (subst basic_toLowerCase[OF assms]) (simp_all add: string_eval)
  moreover have "normalizeNFKD U (js ''world'') = js ''world''"
    by (rule basic_NFKD[OF assms]) (simp add: js_def)
  ultimately show ?thesis
    by (simp add: normalizeFolderName_def string_eval basic_letter[OF assms])
qed

subsection \<open>Variants of a label\<close>

lemma normalizeFolderName_keyOfLowered:
  "normalizeFolderName U a = normalizeNFKD U (keyOfLowered U (toLowerCase U a))"
  by (simp add: normalizeFolderName_def keyOfLowered_def)

subsection \<open>Dropping at the end\<close>

lemma dropEnd_Nil [simp]: "dropEnd P [] = []"
  by (simp add: dropEnd_def)

lemma dropEnd_Cons:
  "dropEnd P (c # r) = (if P c \<and> dropEnd P r = [] then [] else c # dropEnd P r)"
  by (auto simp: dropEnd_def dropWhile_append)

lemma dropEnd_snoc:
  "dropEnd P (xs @ [c]) = (if P c then dropEnd P xs else xs @ [c])"
  by (simp add: dropEnd_def)

lemma trim_dropEnd: "trim r = dropEnd isWhiteSpace (dropWhile isWhiteSpace r)"
  by (simp add: trim_def dropEnd_def)

lemma stripTrailingSlashes_dropEnd: "stripTrailingSlashes r = dropEnd (\<lambda>c. c = slash) r"
  by (simp add: stripTrailingSlashes_def dropEnd_def)

subsection \<open>Facts about the code units\<close>

lemma space_facts:
  "isWhiteSpace 0x20" "\<not> isWhiteSpace slash" "(0x20 :: 16 word) \<noteq> slash"
  "\<not> isHighSurrogate slash" "\<not> isHighSurrogate 0x20" "unat slash = 0x2F"
  "unat (0x20 :: 16 word) = 0x20"
  by (simp_all add: isWhiteSpace_def slash_def isHighSurrogate_def)

lemma whiteSpace_not_high: "isWhiteSpace c \<Longrightarrow> \<not> isHighSurrogate c"
  by (auto simp: isWhiteSpace_def isHighSurrogate_def word_le_nat_alt)

lemma whiteSpace_not_slash: "isWhiteSpace c \<Longrightarrow> c \<noteq> slash"
  using space_facts(2) by auto

subsection \<open>Leading symbols\<close>

lemma strip_symbol:
  "\<not> isLetterOrNumber U (unat c) \<Longrightarrow> \<not> isHighSurrogate c \<Longrightarrow>
     stripLeadingSymbols U (c # r) = stripLeadingSymbols U r"
  by (cases r) simp_all

lemma strip_pair:
  "isHighSurrogate h \<Longrightarrow> isLowSurrogate l \<Longrightarrow> \<not> isLetterOrNumber U (codePoint h l) \<Longrightarrow>
     stripLeadingSymbols U (h # l # r) = stripLeadingSymbols U r"
  by simp

lemma strip_collapseRun:
  assumes "\<not> isLetterOrNumber U 0x20"
  shows "stripLeadingSymbols U (collapseRun True t) = stripLeadingSymbols U (collapseRun False t)"
proof (cases t)
  case Nil
  then show ?thesis by simp
next
  case (Cons c cs)
  then show ?thesis
    using assms strip_symbol[of U "0x20" "collapseRun True cs"] space_facts by simp
qed

text \<open>The key of a lowered string whose white space at the start is already gone.\<close>

lemma afterTrailing_slash:
  assumes "\<not> isLetterOrNumber U 0x2F"
  shows "afterTrailing U (slash # t) = afterTrailing U t"
proof (cases "dropEnd (\<lambda>c. c = slash) t = []")
  case True
  then show ?thesis
    unfolding afterTrailing_def dropEnd_Cons by simp
next
  case False
  then show ?thesis
    unfolding afterTrailing_def dropEnd_Cons
    using assms strip_symbol[of U slash] space_facts by simp
qed

lemma afterTrailing_stripLeading:
  assumes "\<not> isLetterOrNumber U 0x2F"
  shows "afterTrailing U (stripLeadingSlashes t) = afterTrailing U t"
  by (induction t) (simp_all add: stripLeadingSlashes_def afterTrailing_slash[OF assms])

lemma keyOfLowered_afterLeading:
  "keyOfLowered U r = afterLeading U (dropWhile isWhiteSpace r)"
  by (simp add: keyOfLowered_def afterLeading_def afterTrailing_def trim_dropEnd
      stripTrailingSlashes_dropEnd collapseSpaces_def)

lemma afterTrailing_symbol:
  assumes c: "\<not> isLetterOrNumber U (unat c)" "\<not> isHighSurrogate c" "c \<noteq> slash"
    and sp: "\<not> isLetterOrNumber U 0x20"
  shows "afterTrailing U (c # t) = afterTrailing U t"
proof (cases "isWhiteSpace c")
  case True
  then show ?thesis
    unfolding afterTrailing_def dropEnd_Cons
    using c(3) strip_symbol[of U "0x20"] sp space_facts
    by (simp add: strip_collapseRun[OF sp])
next
  case False
  then show ?thesis
    unfolding afterTrailing_def dropEnd_Cons
    using c(3) strip_symbol[OF c(1,2)] by simp
qed

lemma afterLeading_symbol:
  assumes c: "\<not> isLetterOrNumber U (unat c)" "\<not> isHighSurrogate c"
    and sp: "\<not> isLetterOrNumber U 0x20" and sl: "\<not> isLetterOrNumber U 0x2F"
  shows "afterLeading U (c # r) = afterLeading U r"
proof (cases "isWhiteSpace c \<and> dropEnd isWhiteSpace r = []")
  case True
  then show ?thesis
    unfolding afterLeading_def dropEnd_Cons by simp
next
  case False
  then have rt: "dropEnd isWhiteSpace (c # r) = c # dropEnd isWhiteSpace r"
    unfolding dropEnd_Cons by simp
  show ?thesis
  proof (cases "c = slash")
    case True
    then show ?thesis
      unfolding afterLeading_def rt by (simp add: stripLeadingSlashes_def)
  next
    case ns: False
    have "afterLeading U (c # r) = afterTrailing U (c # dropEnd isWhiteSpace r)"
      unfolding afterLeading_def rt using ns by (simp add: stripLeadingSlashes_def)
    also have "\<dots> = afterTrailing U (dropEnd isWhiteSpace r)"
      by (rule afterTrailing_symbol[OF c ns sp])
    also have "\<dots> = afterLeading U r"
      by (simp add: afterLeading_def afterTrailing_stripLeading[OF sl])
    finally show ?thesis .
  qed
qed

lemma afterLeading_pair:
  assumes p: "isHighSurrogate h" "isLowSurrogate l" "\<not> isLetterOrNumber U (codePoint h l)"
    and sl: "\<not> isLetterOrNumber U 0x2F"
  shows "afterLeading U (h # l # r) = afterLeading U r"
proof -
  have nw: "\<not> isWhiteSpace h" "\<not> isWhiteSpace l" "h \<noteq> slash" "l \<noteq> slash"
    using p(1,2)
    by (auto simp: isWhiteSpace_def isHighSurrogate_def isLowSurrogate_def slash_def
        word_le_nat_alt)
  have rt: "dropEnd isWhiteSpace (h # l # r) = h # l # dropEnd isWhiteSpace r"
    unfolding dropEnd_Cons using nw by simp
  have st: "dropEnd (\<lambda>c. c = slash) (h # l # t) = h # l # dropEnd (\<lambda>c. c = slash) t" for t
    unfolding dropEnd_Cons using nw by simp
  have "afterLeading U (h # l # r) = afterTrailing U (h # l # dropEnd isWhiteSpace r)"
    unfolding afterLeading_def rt using nw by (simp add: stripLeadingSlashes_def)
  also have "\<dots> = afterTrailing U (dropEnd isWhiteSpace r)"
    unfolding afterTrailing_def st using nw strip_pair[OF p] by simp
  also have "\<dots> = afterLeading U r"
    by (simp add: afterLeading_def afterTrailing_stripLeading[OF sl])
  finally show ?thesis .
qed

lemma separators_space:
  "separatorsAreSymbols U \<Longrightarrow> \<not> isLetterOrNumber U 0x20"
  "separatorsAreSymbols U \<Longrightarrow> \<not> isLetterOrNumber U 0x2F"
  "separatorsAreSymbols U \<Longrightarrow> isWhiteSpace c \<Longrightarrow> \<not> isLetterOrNumber U (unat c)"
  using space_facts(1,7) by (auto simp: separatorsAreSymbols_def)

lemma afterLeading_dropWhile:
  assumes "separatorsAreSymbols U"
  shows "afterLeading U (dropWhile isWhiteSpace r) = afterLeading U r"
proof (induction r)
  case Nil
  show ?case by simp
next
  case (Cons c cs)
  show ?case
  proof (cases "isWhiteSpace c")
    case True
    then show ?thesis
      using Cons afterLeading_symbol[of U c cs] separators_space[OF assms] whiteSpace_not_high
      by simp
  next
    case False
    then show ?thesis by simp
  qed
qed

lemma keyOfLowered_eq_afterLeading:
  "separatorsAreSymbols U \<Longrightarrow> keyOfLowered U r = afterLeading U r"
  by (simp add: keyOfLowered_afterLeading afterLeading_dropWhile)

lemma encode_bmp:
  assumes "scalarValue c" "c < 0x10000"
  shows "encodeCodePoint c = [of_nat c]" "unat (of_nat c :: 16 word) = c"
    "\<not> isHighSurrogate (of_nat c)"
proof -
  show "encodeCodePoint c = [of_nat c]" using assms by (simp add: encodeCodePoint_def)
  show u: "unat (of_nat c :: 16 word) = c"
    by (rule of_nat_inverse[OF refl]) (use assms(2) in simp)
  show "\<not> isHighSurrogate (of_nat c)"
    using assms u by (auto simp: isHighSurrogate_def scalarValue_def word_le_nat_alt)
qed

lemma encode_astral:
  assumes "scalarValue c" "\<not> c < 0x10000"
  shows "\<exists>h l. encodeCodePoint c = [h, l] \<and> isHighSurrogate h \<and> isLowSurrogate l \<and>
           codePoint h l = c"
proof -
  let ?d = "c - 0x10000"
  let ?h = "of_nat (0xD800 + ?d div 0x400) :: 16 word"
  let ?l = "of_nat (0xDC00 + ?d mod 0x400) :: 16 word"
  have d: "?d < 0x100000" using assms by (simp add: scalarValue_def)
  then have q: "?d div 0x400 < 0x400" by simp
  have uh: "unat ?h = 0xD800 + ?d div 0x400"
    by (rule of_nat_inverse[OF refl]) (use q in simp)
  have m: "?d mod 0x400 < 0x400" by simp
  have ul: "unat ?l = 0xDC00 + ?d mod 0x400"
    by (rule of_nat_inverse[OF refl]) (use m in simp)
  have "isHighSurrogate ?h" using uh q by (simp add: isHighSurrogate_def word_le_nat_alt)
  moreover have "isLowSurrogate ?l" using ul by (simp add: isLowSurrogate_def word_le_nat_alt)
  moreover have "codePoint ?h ?l = c"
    using assms(2) unfolding codePoint_def uh ul by simp
  moreover have "encodeCodePoint c = [?h, ?l]" using assms(2) by (simp add: encodeCodePoint_def)
  ultimately show ?thesis by blast
qed

lemma keyOfLowered_decoration:
  assumes s: "separatorsAreSymbols U"
    and d: "\<forall>c \<in> set ds. scalarValue c \<and> \<not> isLetterOrNumber U c"
  shows "keyOfLowered U (encodeCodePoints ds @ r) = keyOfLowered U r"
proof -
  have "afterLeading U (encodeCodePoints ds @ r) = afterLeading U r"
    using d
  proof (induction ds)
    case Nil
    show ?case by (simp add: encodeCodePoints_def)
  next
    case (Cons c cs)
    then have c: "scalarValue c" "\<not> isLetterOrNumber U c"
      and ih: "afterLeading U (encodeCodePoints cs @ r) = afterLeading U r"
      by simp_all
    show ?case
    proof (cases "c < 0x10000")
      case True
      note e = encode_bmp[OF c(1) True]
      have "afterLeading U (of_nat c # encodeCodePoints cs @ r)
              = afterLeading U (encodeCodePoints cs @ r)"
        using c(2) e(2,3) separators_space(1,2)[OF s]
        by (intro afterLeading_symbol) simp_all
      then show ?thesis using ih e(1) by (simp add: encodeCodePoints_def)
    next
      case False
      from encode_astral[OF c(1) False] obtain h l where
        e: "encodeCodePoint c = [h, l]" "isHighSurrogate h" "isLowSurrogate l" "codePoint h l = c"
        by blast
      have "afterLeading U (h # l # encodeCodePoints cs @ r)
              = afterLeading U (encodeCodePoints cs @ r)"
        using c(2) e separators_space(2)[OF s] by (intro afterLeading_pair) simp_all
      then show ?thesis using ih e(1) by (simp add: encodeCodePoints_def)
    qed
  qed
  then show ?thesis by (simp add: keyOfLowered_eq_afterLeading[OF s])
qed

subsection \<open>White space\<close>

lemma dropEnd_empty:
  "dropEnd P r = [] \<longleftrightarrow> (\<forall>x \<in> set r. P x)"
  "[] = dropEnd P r \<longleftrightarrow> (\<forall>x \<in> set r. P x)"
  by (auto simp: dropEnd_def dropWhile_eq_Nil_conv)

lemma collapseRun_dropWhile:
  "collapseRun False (dropWhile isWhiteSpace s) = dropWhile isWhiteSpace (collapseRun b s)"
  by (induction s arbitrary: b) (simp_all add: space_facts)

lemma collapseRun_whiteSpace:
  "(\<forall>x \<in> set (collapseRun b s). isWhiteSpace x) \<longleftrightarrow> (\<forall>x \<in> set s. isWhiteSpace x)"
  by (induction s arbitrary: b) (simp_all add: space_facts)

lemma collapseRun_dropEnd:
  "collapseRun b (dropEnd isWhiteSpace s) = dropEnd isWhiteSpace (collapseRun b s)"
  by (induction s arbitrary: b)
     (auto simp: dropEnd_Cons dropEnd_empty collapseRun_whiteSpace space_facts)

lemma collapseRun_stripLeadingSlashes:
  "collapseRun False (stripLeadingSlashes s) = stripLeadingSlashes (collapseRun False s)"
  by (induction s) (simp_all add: stripLeadingSlashes_def space_facts whiteSpace_not_slash)

lemma collapseRun_slashes:
  "(\<forall>x \<in> set (collapseRun False s). x = slash) \<longleftrightarrow> (\<forall>x \<in> set s. x = slash)"
  by (induction s) (auto simp: space_facts whiteSpace_not_slash)

lemma collapseRun_dropEnd_slash:
  "collapseRun b (dropEnd (\<lambda>c. c = slash) s) = dropEnd (\<lambda>c. c = slash) (collapseRun b s)"
  by (induction s arbitrary: b)
     (auto simp: dropEnd_Cons dropEnd_empty collapseRun_slashes space_facts
        whiteSpace_not_slash)

lemma keyOfLowered_collapseSpaces:
  "keyOfLowered U r =
     stripLeadingSymbols U
       (dropEnd (\<lambda>c. c = slash) (stripLeadingSlashes
         (dropEnd isWhiteSpace (dropWhile isWhiteSpace (collapseSpaces r)))))"
  by (simp add: keyOfLowered_def trim_dropEnd stripTrailingSlashes_dropEnd collapseSpaces_def
      collapseRun_dropEnd_slash collapseRun_stripLeadingSlashes collapseRun_dropEnd
      collapseRun_dropWhile[of _ False])

lemma collapseRun_run:
  "w \<noteq> [] \<Longrightarrow> \<forall>c \<in> set w. isWhiteSpace c \<Longrightarrow>
     collapseRun b (w @ y) = collapseRun b (0x20 # y)"
proof (induction w arbitrary: b)
  case Nil
  then show ?case by simp
next
  case (Cons c w)
  show ?case
  proof (cases "w = []")
    case True
    then show ?thesis using Cons.prems by (simp add: space_facts)
  next
    case False
    then have "collapseRun True (w @ y) = collapseRun True (0x20 # y)"
      using Cons by simp
    then show ?thesis using Cons.prems by (simp add: space_facts)
  qed
qed

lemma collapseRun_append_cong:
  "collapseRun True u = collapseRun True v \<Longrightarrow> collapseRun False u = collapseRun False v \<Longrightarrow>
     collapseRun b (x @ u) = collapseRun b (x @ v)"
  by (induction x arbitrary: b) (case_tac b, simp_all)

lemma collapseSpaces_run:
  assumes "w \<noteq> []" "\<forall>c \<in> set w. isWhiteSpace c"
  shows "collapseSpaces (x @ w @ y) = collapseSpaces (x @ 0x20 # y)"
  unfolding collapseSpaces_def
  by (rule collapseRun_append_cong) (rule collapseRun_run[OF assms])+

lemma keyOfLowered_run:
  assumes "w \<noteq> []" "\<forall>c \<in> set w. isWhiteSpace c"
  shows "keyOfLowered U (x @ w @ y) = keyOfLowered U (x @ 0x20 # y)"
  by (simp only: keyOfLowered_collapseSpaces collapseSpaces_run[OF assms])

subsection \<open>White space around a label\<close>

lemma dropEnd_all: "\<forall>x \<in> set s. P x \<Longrightarrow> dropEnd P s = []"
  by (simp add: dropEnd_empty)

lemma dropEnd_dropWhile: "dropEnd P (dropWhile P s) = dropWhile P (dropEnd P s)"
  by (induction s) (auto simp: dropEnd_Cons dropEnd_empty dropEnd_all dropWhile_eq_Nil_conv)

lemma dropEnd_append_all:
  assumes "\<forall>c \<in> set v. P c"
  shows "dropEnd P (r @ v) = dropEnd P r"
proof -
  have "dropWhile P (rev v @ rev r) = dropWhile P (rev r)"
    by (rule dropWhile_append2) (use assms in simp)
  then show ?thesis by (simp add: dropEnd_def)
qed

lemma trim_surrounded:
  assumes "\<forall>c \<in> set v1. isWhiteSpace c" "\<forall>c \<in> set v2. isWhiteSpace c"
  shows "trim (v1 @ r @ v2) = trim r"
proof -
  have "trim (v1 @ r @ v2) = dropWhile isWhiteSpace (dropEnd isWhiteSpace ((v1 @ r) @ v2))"
    by (simp add: trim_dropEnd dropEnd_dropWhile)
  also have "\<dots> = dropWhile isWhiteSpace (dropEnd isWhiteSpace (v1 @ r))"
    by (simp only: dropEnd_append_all[OF assms(2)])
  also have "\<dots> = dropEnd isWhiteSpace (dropWhile isWhiteSpace (v1 @ r))"
    by (simp only: dropEnd_dropWhile)
  also have "\<dots> = trim r"
    using assms(1) by (simp add: trim_dropEnd dropWhile_append2)
  finally show ?thesis .
qed

subsection \<open>The equivalence of labels\<close>

lemma separators_latinTables: "separatorsAreSymbols latinTables"
  by (auto simp: separatorsAreSymbols_def latinTables_def isWhiteSpace_def asciiAlnum_def
      word_le_nat_alt)

lemma encode_laptop: "encodeCodePoints [0x1F4BB] = [0xD83D, 0xDCBB]"
  by (simp add: encodeCodePoints_def encodeCodePoint_def)

lemma encode_technologist:
  "encodeCodePoints [0x1F9D1, 0x200D, 0x1F4BB] = [0xD83E, 0xDDD1, 0x200D, 0xD83D, 0xDCBB]"
  by (simp add: encodeCodePoints_def encodeCodePoint_def)

text \<open>
  C7. Normalization is a function of the label alone, so it gives the same key whenever
  it is evaluated, and having equal keys is an equivalence on labels. Decorated variants
  of a label have the same key, whatever the Unicode data \<open>U\<close> of the engine:

    \<^item> case: two labels with the same lower case form;
    \<^item> internal white space: two labels whose lower case forms differ in one run of white
      space only, \<open>w1\<close> in one and \<open>w2\<close> in the other, both not empty;
    \<^item> white space around: a label whose lower case form is that of the other with white
      space \<open>v1\<close> before it and \<open>v2\<close> behind it;
    \<^item> leading symbols: two labels whose lower case forms are the same text \<open>r\<close> behind
      leading code points \<open>ds\<close> and \<open>es\<close>, none of them a letter or a number; here the data is
      taken to class no white space and not the slash as a letter or a number.

  With the Unicode data of the engine, the label "Technology" decorated with a laptop and
  the label "technology " decorated with a technologist have the same key, and
  "tech nology" has another.
\<close>

theorem normalizeFolderName_equivalence:
  "(\<forall>a. normalizeFolderName U a = normalizeFolderName U a) \<and>
   reflp (sameFolder U) \<and> symp (sameFolder U) \<and> transp (sameFolder U) \<and>
   (toLowerCase U a = toLowerCase U b \<longrightarrow> sameFolder U a b) \<and>
   (w1 \<noteq> [] \<and> w2 \<noteq> [] \<and> list_all isWhiteSpace w1 \<and> list_all isWhiteSpace w2 \<and>
    toLowerCase U a = x @ w1 @ y \<and> toLowerCase U b = x @ w2 @ y \<longrightarrow> sameFolder U a b) \<and>
   (list_all isWhiteSpace v1 \<and> list_all isWhiteSpace v2 \<and>
    toLowerCase U a = v1 @ toLowerCase U b @ v2 \<longrightarrow> sameFolder U a b) \<and>
   (separatorsAreSymbols U \<and>
    list_all (\<lambda>c. scalarValue c \<and> \<not> isLetterOrNumber U c) ds \<and>
    list_all (\<lambda>c. scalarValue c \<and> \<not> isLetterOrNumber U c) es \<and>
    toLowerCase U a = encodeCodePoints ds @ r \<and> toLowerCase U b = encodeCodePoints es @ r \<longrightarrow>
      sameFolder U a b) \<and>
   (basicLatinData U \<longrightarrow>
      sameFolder U laptopTechnology technologistTechnology \<and>
      \<not> sameFolder U laptopTechnology (js ''tech nology''))"
proof -
  note key = sameFolder_def normalizeFolderName_keyOfLowered
  have e: "reflp (sameFolder U)" "symp (sameFolder U)" "transp (sameFolder U)"
    by (auto simp: sameFolder_def intro: reflpI sympI transpI)
  have c: "sameFolder U a b" if "toLowerCase U a = toLowerCase U b"
    using that by (simp add: key)
  have w: "sameFolder U a b"
    if "w1 \<noteq> []" "w2 \<noteq> []" "list_all isWhiteSpace w1" "list_all isWhiteSpace w2"
      "toLowerCase U a = x @ w1 @ y" "toLowerCase U b = x @ w2 @ y"
  proof -
    have "keyOfLowered U (x @ w1 @ y) = keyOfLowered U (x @ w2 @ y)"
      using that(1-4) by (simp add: keyOfLowered_run list_all_iff)
    then show ?thesis using that(5,6) by (simp add: key)
  qed
  have v: "sameFolder U a b"
    if "list_all isWhiteSpace v1" "list_all isWhiteSpace v2"
      "toLowerCase U a = v1 @ toLowerCase U b @ v2"
  proof -
    have "trim (v1 @ toLowerCase U b @ v2) = trim (toLowerCase U b)"
      using that(1,2) by (intro trim_surrounded) (simp_all add: list_all_iff)
    then show ?thesis using that(3) by (simp add: key keyOfLowered_def)
  qed
  have d: "sameFolder U a b"
    if "separatorsAreSymbols U"
      "list_all (\<lambda>c. scalarValue c \<and> \<not> isLetterOrNumber U c) ds"
      "list_all (\<lambda>c. scalarValue c \<and> \<not> isLetterOrNumber U c) es"
      "toLowerCase U a = encodeCodePoints ds @ r" "toLowerCase U b = encodeCodePoints es @ r"
  proof -
    have "keyOfLowered U (encodeCodePoints ds @ r) = keyOfLowered U r"
      using that(2) by (intro keyOfLowered_decoration[OF that(1)]) (simp add: list_all_iff)
    moreover have "keyOfLowered U (encodeCodePoints es @ r) = keyOfLowered U r"
      using that(3) by (intro keyOfLowered_decoration[OF that(1)]) (simp add: list_all_iff)
    ultimately show ?thesis using that(4,5) by (simp add: key)
  qed
  have p: "sameFolder U laptopTechnology technologistTechnology" if "basicLatinData U"
    using that
    by (simp add: sameFolder_def normalize_laptopTechnology normalize_technologistTechnology)
  have n: "\<not> sameFolder U laptopTechnology (js ''tech nology'')" if "basicLatinData U"
    using that
    by (simp add: sameFolder_def normalize_laptopTechnology normalize_tech_nology)
       (simp add: js_def)
  show ?thesis using e c w v d p n by blast
qed

theorem normalizeFolderName_equivalence_witness:
  "(toLowerCase latinTables (js ''Technology'') = toLowerCase latinTables (js ''TECHNOLOGY'') \<and>
    sameFolder latinTables (js ''Technology'') (js ''TECHNOLOGY'')) \<and>
   (js ''   '' \<noteq> [] \<and> js '' '' \<noteq> [] \<and>
    list_all isWhiteSpace (js ''   '') \<and> list_all isWhiteSpace (js '' '') \<and>
    toLowerCase latinTables (js ''My   Folder'') = js ''my'' @ js ''   '' @ js ''folder'' \<and>
    toLowerCase latinTables (js ''MY Folder'') = js ''my'' @ js '' '' @ js ''folder'' \<and>
    sameFolder latinTables (js ''My   Folder'') (js ''MY Folder'')) \<and>
   (list_all isWhiteSpace (js '' '') \<and> list_all isWhiteSpace (js ''  '') \<and>
    toLowerCase latinTables (js '' Technology  '') =
      js '' '' @ toLowerCase latinTables (js ''technology'') @ js ''  '' \<and>
    sameFolder latinTables (js '' Technology  '') (js ''technology'')) \<and>
   (separatorsAreSymbols latinTables \<and>
    list_all (\<lambda>c. scalarValue c \<and> \<not> isLetterOrNumber latinTables c) [0x1F4BB] \<and>
    list_all (\<lambda>c. scalarValue c \<and> \<not> isLetterOrNumber latinTables c) [0x1F9D1, 0x200D, 0x1F4BB] \<and>
    toLowerCase latinTables laptopTechnology =
      encodeCodePoints [0x1F4BB] @ js '' technology'' \<and>
    toLowerCase latinTables ([0xD83E, 0xDDD1, 0x200D, 0xD83D, 0xDCBB] @ js '' technology'') =
      encodeCodePoints [0x1F9D1, 0x200D, 0x1F4BB] @ js '' technology'' \<and>
    sameFolder latinTables laptopTechnology
      ([0xD83E, 0xDDD1, 0x200D, 0xD83D, 0xDCBB] @ js '' technology'')) \<and>
   (basicLatinData latinTables \<and>
    sameFolder latinTables laptopTechnology technologistTechnology \<and>
    \<not> sameFolder latinTables laptopTechnology (js ''tech nology''))"
proof -
  note ev = latinTables_def string_eval
  have c: "toLowerCase latinTables (js ''Technology'') = toLowerCase latinTables (js ''TECHNOLOGY'')"
    by (simp add: ev)
  have w: "js ''   '' \<noteq> []" "js '' '' \<noteq> []"
    "list_all isWhiteSpace (js ''   '')" "list_all isWhiteSpace (js '' '')"
    "toLowerCase latinTables (js ''My   Folder'') = js ''my'' @ js ''   '' @ js ''folder''"
    "toLowerCase latinTables (js ''MY Folder'') = js ''my'' @ js '' '' @ js ''folder''"
    by (simp_all add: ev)
  have v: "list_all isWhiteSpace (js '' '')" "list_all isWhiteSpace (js ''  '')"
    "toLowerCase latinTables (js '' Technology  '') =
       js '' '' @ toLowerCase latinTables (js ''technology'') @ js ''  ''"
    by (simp_all add: ev)
  have d: "list_all (\<lambda>c. scalarValue c \<and> \<not> isLetterOrNumber latinTables c) [0x1F4BB]"
    "list_all (\<lambda>c. scalarValue c \<and> \<not> isLetterOrNumber latinTables c) [0x1F9D1, 0x200D, 0x1F4BB]"
    "toLowerCase latinTables laptopTechnology = encodeCodePoints [0x1F4BB] @ js '' technology''"
    "toLowerCase latinTables ([0xD83E, 0xDDD1, 0x200D, 0xD83D, 0xDCBB] @ js '' technology'') =
       encodeCodePoints [0x1F9D1, 0x200D, 0x1F4BB] @ js '' technology''"
    by (simp_all add: ev scalarValue_def laptopTechnology_def encode_laptop encode_technologist)
  note s = separators_latinTables
  note b = latinTables_basic
  have t1: "sameFolder latinTables (js ''Technology'') (js ''TECHNOLOGY'')"
    using normalizeFolderName_equivalence
      [where U = latinTables and a = "js ''Technology''" and b = "js ''TECHNOLOGY''"] c
    by blast
  have t2: "sameFolder latinTables (js ''My   Folder'') (js ''MY Folder'')"
    using normalizeFolderName_equivalence
      [where U = latinTables and a = "js ''My   Folder''" and b = "js ''MY Folder''"
        and x = "js ''my''" and y = "js ''folder''" and ?w1.0 = "js ''   ''"
        and ?w2.0 = "js '' ''"] w
    by blast
  have t3: "sameFolder latinTables (js '' Technology  '') (js ''technology'')"
    using normalizeFolderName_equivalence
      [where U = latinTables and a = "js '' Technology  ''" and b = "js ''technology''"
        and ?v1.0 = "js '' ''" and ?v2.0 = "js ''  ''"] v
    by blast
  have t4: "sameFolder latinTables laptopTechnology
      ([0xD83E, 0xDDD1, 0x200D, 0xD83D, 0xDCBB] @ js '' technology'')"
    using normalizeFolderName_equivalence
      [where U = latinTables and a = laptopTechnology
        and b = "[0xD83E, 0xDDD1, 0x200D, 0xD83D, 0xDCBB] @ js '' technology''"
        and ds = "[0x1F4BB]" and es = "[0x1F9D1, 0x200D, 0x1F4BB]"
        and r = "js '' technology''"] s d
    by blast
  have t5: "sameFolder latinTables laptopTechnology technologistTechnology"
    "\<not> sameFolder latinTables laptopTechnology (js ''tech nology'')"
    using normalizeFolderName_equivalence [of latinTables] b by blast+
  show ?thesis using c w v d s b t1 t2 t3 t4 t5 by blast
qed

section \<open>Sanitizing a path\<close>

lemma upt_Cons_shift: "[0..<length (p # ps)] = 0 # map Suc [0..<length ps]"
  by (simp add: upt_conv_Cons map_Suc_upt del: upt_Suc)

lemma all_less_Suc: "(\<forall>j<Suc i. P j) \<longleftrightarrow> P 0 \<and> (\<forall>j<i. P (Suc j))"
  by (metis less_Suc_eq_0_disj)

lemma filterSeen_index:
  "filterSeen U seen ps =
     map (\<lambda>i. ps ! i)
       (filter (\<lambda>i. normalizeFolderName U (ps ! i) \<notin> seen \<and>
                     (\<forall>j<i. normalizeFolderName U (ps ! j) \<noteq> normalizeFolderName U (ps ! i)))
          [0..<length ps])"
proof (induction ps arbitrary: seen)
  case Nil
  show ?case by simp
next
  case (Cons p ps)
  let ?k = "normalizeFolderName U"
  show ?case
  proof (cases "?k p \<in> seen")
    case True
    have same: "\<And>i. (?k (ps ! i) \<notin> seen \<and> ?k p \<noteq> ?k (ps ! i) \<and> (\<forall>j<i. ?k (ps ! j) \<noteq> ?k (ps ! i)))
        = (?k (ps ! i) \<notin> seen \<and> (\<forall>j<i. ?k (ps ! j) \<noteq> ?k (ps ! i)))"
      using True by auto
    show ?thesis
      unfolding upt_Cons_shift using True
      by (simp add: filter_map o_def all_less_Suc same Cons.IH)
  next
    case False
    have same: "\<And>i. (?k (ps ! i) \<noteq> ?k p \<and> ?k (ps ! i) \<notin> seen \<and> (\<forall>j<i. ?k (ps ! j) \<noteq> ?k (ps ! i)))
        = (?k (ps ! i) \<notin> seen \<and> ?k p \<noteq> ?k (ps ! i) \<and> (\<forall>j<i. ?k (ps ! j) \<noteq> ?k (ps ! i)))"
      by auto
    show ?thesis
      unfolding upt_Cons_shift using False
      by (simp add: filter_map o_def all_less_Suc same Cons.IH)
  qed
qed

text \<open>
  C6. \<open>sanitizeFolderPath\<close> trims every segment, drops the segments that are then empty, and
  of the rest keeps exactly those whose canonical key no earlier one has; and for the path
  \<open>["  ", "News", "World", "News"]\<close> it returns \<open>["News", "World"]\<close>.
\<close>

theorem sanitizeFolderPath_first_occurrences:
  "sanitizeFolderPath U path = sanitize_spec U path \<and>
   (basicLatinData U \<longrightarrow>
      sanitizeFolderPath U [js ''  '', js ''News'', js ''World'', js ''News'']
        = [js ''News'', js ''World''])"
proof -
  have "sanitizeFolderPath U path = sanitize_spec U path"
    by (simp add: sanitizeFolderPath_def sanitize_spec_def firstOccurrences_def filterSeen_index)
  moreover have "sanitizeFolderPath U [js ''  '', js ''News'', js ''World'', js ''News'']
        = [js ''News'', js ''World'']" if "basicLatinData U"
  proof -
    have t: "map trim [js ''  '', js ''News'', js ''World'', js ''News'']
        = [[], js ''News'', js ''World'', js ''News'']"
      by (simp add: string_eval)
    have ne: "js ''news'' \<noteq> js ''world''" by (simp add: js_def)
    show ?thesis
      unfolding sanitizeFolderPath_def t
      using ne by (simp add: normalize_News[OF that] normalize_World[OF that])
         (simp add: js_def)
  qed
  ultimately show ?thesis by blast
qed

theorem sanitizeFolderPath_first_occurrences_witness:
  "basicLatinData latinTables \<and>
   sanitizeFolderPath latinTables [js ''  '', js ''News'', js ''World'', js ''News'']
     = [js ''News'', js ''World'']"
  using sanitizeFolderPath_first_occurrences [of latinTables] latinTables_basic
  by blast

section \<open>The store\<close>

lemma findNode_self [simp]: "findNode (nid c) c = Some c"
  by (cases c) simp

lemma isLink_Node [simp]:
  "isLink (Node j t u cs) \<longleftrightarrow> (case u of None \<Rightarrow> False | Some v \<Rightarrow> v \<noteq> [])"
  by (simp add: isLink_def)

lemma links_leaf: "\<not> isLink c \<Longrightarrow> children c = [] \<Longrightarrow> links c = []"
  by (cases c) simp

lemma folderIds_leaf: "\<not> isLink c \<Longrightarrow> children c = [] \<Longrightarrow> folderIds c = [nid c]"
  by (cases c) simp

lemma findNode_nid:
  "findNode i t = Some n \<Longrightarrow> nid n = i"
  "findNodeIn i ts = Some n \<Longrightarrow> nid n = i"
  by (induction i t and i ts rule: findNode_findNodeIn.induct)
     (auto split: if_splits option.splits)

lemma findNode_link:
  "findNode i t = Some n \<Longrightarrow> isLink n \<Longrightarrow> i \<in> fst ` set (links t)"
  "findNodeIn i ts = Some n \<Longrightarrow> isLink n \<Longrightarrow> i \<in> fst ` set (linksIn ts)"
  by (induction i t and i ts rule: findNode_findNodeIn.induct)
     (auto split: if_splits option.splits)

lemma deleteNode_links:
  "findNode i t = Some n \<Longrightarrow> nid t \<noteq> i \<Longrightarrow> \<not> isLink n \<Longrightarrow> children n = [] \<Longrightarrow>
     links (deleteNode i t) = links t"
  "findNodeIn i ts = Some n \<Longrightarrow> \<not> isLink n \<Longrightarrow> children n = [] \<Longrightarrow>
     linksIn (deleteNodeIn i ts) = linksIn ts"
  by (induction i t and i ts rule: deleteNode_deleteNodeIn.induct)
     (auto split: if_splits option.splits simp: links_leaf)

lemma deleteNode_folderIds:
  "findNode i t = Some n \<Longrightarrow> nid t \<noteq> i \<Longrightarrow> \<not> isLink n \<Longrightarrow> children n = [] \<Longrightarrow>
     Suc (length (folderIds (deleteNode i t))) = length (folderIds t)"
  "findNodeIn i ts = Some n \<Longrightarrow> \<not> isLink n \<Longrightarrow> children n = [] \<Longrightarrow>
     Suc (length (folderIdsIn (deleteNodeIn i ts))) = length (folderIdsIn ts)"
  by (induction i t and i ts rule: deleteNode_deleteNodeIn.induct)
     (auto split: if_splits option.splits simp: folderIds_leaf)

lemma remove_calls: "remove s i = (r, s') \<Longrightarrow> removeCalls s' = removeCalls s @ [i]"
  by (auto simp: remove_def Let_def split: if_splits option.splits)

lemma remove_fails: "remove s i = (Some e, s') \<Longrightarrow> root s' = root s"
  by (auto simp: remove_def Let_def split: if_splits option.splits)

lemma remove_ok_links:
  assumes "remove s i = (None, s')" "i \<notin> set (linkIds (root s))"
  shows "links (root s') = links (root s)"
    and "Suc (length (folderIds (root s'))) = length (folderIds (root s))"
proof -
  from assms(1) obtain n where n: "findNode i (root s) = Some n" "children n = []"
    "nid (root s) \<noteq> i" and r: "root s' = deleteNode i (root s)"
    by (auto simp: remove_def Let_def split: if_splits option.splits)
  have "\<not> isLink n" using findNode_link(1)[OF n(1)] assms(2) by (auto simp: linkIds_def)
  then show "links (root s') = links (root s)"
    and "Suc (length (folderIds (root s'))) = length (folderIds (root s))"
    using n r by (simp_all add: deleteNode_links deleteNode_folderIds)
qed

lemma sweepPost_refl: "sweepPost ids st st"
  by (simp add: sweepPost_def)

lemma sweepPost_calls:
  assumes "sweepPost ids st st'"
  obtains rc where "removeCalls (fst st') = removeCalls (fst st) @ rc" "set rc \<subseteq> set ids"
  using assms unfolding sweepPost_def by blast

lemma sweepPost_links:
  assumes "sweepPost ids st st'" "set ids \<inter> set (linkIds (root (fst st))) = {}"
  shows "links (root (fst st')) = links (root (fst st))"
    and "snd st' + length (folderIds (root (fst st')))
          = snd st + length (folderIds (root (fst st)))"
  using assms unfolding sweepPost_def by blast+

lemma sweepPostI:
  assumes "removeCalls (fst st') = removeCalls (fst st) @ rc" "set rc \<subseteq> set ids"
    and "set ids \<inter> set (linkIds (root (fst st))) = {} \<Longrightarrow>
           links (root (fst st')) = links (root (fst st)) \<and>
           snd st' + length (folderIds (root (fst st')))
             = snd st + length (folderIds (root (fst st)))"
  shows "sweepPost ids st st'"
  unfolding sweepPost_def
proof (intro conjI impI)
  show "\<exists>cs. removeCalls (fst st') = removeCalls (fst st) @ cs \<and> set cs \<subseteq> set ids"
    using assms(1,2) by blast
  show "links (root (fst st')) = links (root (fst st))"
    if "set ids \<inter> set (linkIds (root (fst st))) = {}"
    using assms(3)[OF that] by simp
  show "snd st' + length (folderIds (root (fst st')))
          = snd st + length (folderIds (root (fst st)))"
    if "set ids \<inter> set (linkIds (root (fst st))) = {}"
    using assms(3)[OF that] by simp
qed

lemma sweepPost_trans:
  assumes a: "sweepPost ids1 st st1" and b: "sweepPost ids2 st1 st2"
    and sub: "set ids1 \<union> set ids2 \<subseteq> set ids"
  shows "sweepPost ids st st2"
proof -
  from a obtain c1 where c1: "removeCalls (fst st1) = removeCalls (fst st) @ c1" "set c1 \<subseteq> set ids1"
    by (rule sweepPost_calls)
  from b obtain c2 where c2: "removeCalls (fst st2) = removeCalls (fst st1) @ c2" "set c2 \<subseteq> set ids2"
    by (rule sweepPost_calls)
  show ?thesis
  proof (rule sweepPostI)
    show "removeCalls (fst st2) = removeCalls (fst st) @ (c1 @ c2)" using c1 c2 by simp
    show "set (c1 @ c2) \<subseteq> set ids" using c1 c2 sub by auto
    show "links (root (fst st2)) = links (root (fst st)) \<and>
           snd st2 + length (folderIds (root (fst st2)))
             = snd st + length (folderIds (root (fst st)))"
      if d: "set ids \<inter> set (linkIds (root (fst st))) = {}"
    proof -
      have d1: "set ids1 \<inter> set (linkIds (root (fst st))) = {}" using d sub by blast
      note l1 = sweepPost_links[OF a d1]
      have "linkIds (root (fst st1)) = linkIds (root (fst st))"
        using l1(1) by (simp add: linkIds_def)
      then have d2: "set ids2 \<inter> set (linkIds (root (fst st1))) = {}" using d sub by auto
      note l2 = sweepPost_links[OF b d2]
      show ?thesis using l1 l2 by simp
    qed
  qed
qed

lemma sweepPost_remove:
  assumes "remove s i = (r, s2)"
  shows "sweepPost [i] (s, k) (s2, if r = None then Suc k else k)"
proof (rule sweepPostI)
  show "removeCalls (fst (s2, if r = None then Suc k else k)) = removeCalls (fst (s, k)) @ [i]"
    using remove_calls[OF assms] by simp
  show "set [i] \<subseteq> set [i]" by simp
  show "links (root (fst (s2, if r = None then Suc k else k))) = links (root (fst (s, k))) \<and>
        snd (s2, if r = None then Suc k else k)
          + length (folderIds (root (fst (s2, if r = None then Suc k else k))))
        = snd (s, k) + length (folderIds (root (fst (s, k))))"
    if "set [i] \<inter> set (linkIds (root (fst (s, k)))) = {}"
  proof (cases r)
    case None
    have "i \<notin> set (linkIds (root s))" using that by simp
    then show ?thesis
      using None remove_ok_links[of s i s2] assms by simp
  next
    case (Some e)
    then show ?thesis
      using remove_fails[of s i e s2] assms by simp
  qed
qed

lemma traverse_invariant:
  "traverseAndRemove t st = (b, st') \<Longrightarrow> sweepPost (folderIds t) st st'"
  "traverseChildren ts h st = (b, st') \<Longrightarrow> sweepPost (folderIdsIn ts) st st'"
proof (induction t st and ts h st arbitrary: b st' and b st' rule: traverseAndRemove_traverseChildren.induct)
  case (1 i t u cs s removedCount)
  let ?n = "Node i t u cs"
  show ?case
  proof (cases "isLink ?n")
    case True
    then show ?thesis using "1.prems" by (simp add: sweepPost_refl)
  next
    case False
    obtain h s1 k1 where ch: "(if cs \<noteq> [] then traverseChildren cs False (s, removedCount)
                  else (False, s, removedCount)) = (h, s1, k1)"
      by (metis prod_cases3)
    have fid: "folderIds ?n = i # folderIdsIn cs" using False by simp
    have p1: "sweepPost (folderIdsIn cs) (s, removedCount) (s1, k1)"
    proof (cases "cs = []")
      case True
      then show ?thesis using ch by (simp add: sweepPost_refl)
    next
      case ne: False
      then have "traverseChildren cs False (s, removedCount) = (h, s1, k1)" using ch by simp
      then show ?thesis
        by (rule "1.IH"[OF False ne])
    qed
    show ?thesis
    proof (cases "\<not> h \<and> i \<notin> set systemIds")
      case True
      obtain r s2 where rm: "remove s1 i = (r, s2)" by (metis surj_pair)
      have st': "st' = (s2, if r = None then Suc k1 else k1)"
        using "1.prems"(1) False ch True rm by (cases r) (simp_all del: isLink_Node)
      show ?thesis
        unfolding st' fid
        by (rule sweepPost_trans[OF p1 sweepPost_remove[OF rm]]) auto
    next
      case nr: False
      have "st' = (s1, k1)"
        using "1.prems"(1) False ch nr by (auto simp del: isLink_Node)
      then show ?thesis
        unfolding fid
        using sweepPost_trans[OF p1 sweepPost_refl[of "[]"], of "i # folderIdsIn cs"] by auto
    qed
  qed
next
  case (2 hasChildren st)
  then show ?case by (simp add: sweepPost_refl)
next
  case (3 child rest hasChildren st)
  obtain x y where c: "traverseAndRemove child st = (x, y)" by (metis surj_pair)
  have r: "traverseChildren rest (if \<not> x then True else hasChildren) y = (b, st')"
    using "3.prems"(1) c by simp
  show ?case
    by (rule sweepPost_trans[OF "3.IH"(1)[OF c] "3.IH"(2)[OF c[symmetric] r]]) simp
qed

lemma findNode_leaf: "children c = [] \<Longrightarrow> findNode i c = (if nid c = i then Some c else None)"
  by (cases c) simp

lemma deleteNode_keeps:
  "findNode j t = Some n \<Longrightarrow> children n = [] \<Longrightarrow> nid t \<noteq> j \<Longrightarrow> i \<noteq> j \<Longrightarrow>
     findNode i t \<noteq> None \<Longrightarrow> findNode i (deleteNode j t) \<noteq> None"
  "findNodeIn j ts = Some n \<Longrightarrow> children n = [] \<Longrightarrow> i \<noteq> j \<Longrightarrow>
     findNodeIn i ts \<noteq> None \<Longrightarrow> findNodeIn i (deleteNodeIn j ts) \<noteq> None"
proof (induction j t and j ts rule: deleteNode_deleteNodeIn.induct)
  case (1 j k t u cs)
  then show ?case by (auto split: if_splits)
next
  case (2 j)
  then show ?case by simp
next
  case (3 j c cs)
  show ?case
  proof (cases "nid c = j")
    case True
    then have "n = c" using "3.prems"(1) by auto
    then have "findNode i c = None"
      using "3.prems"(2,3) True by (simp add: findNode_leaf)
    then show ?thesis using "3.prems"(4) True by simp
  next
    case False
    show ?thesis
    proof (cases "findNode j c")
      case None
      then show ?thesis
        using False "3.prems" "3.IH"(2) by (auto split: option.splits)
    next
      case (Some m)
      then have "m = n" using "3.prems"(1) by simp
      then show ?thesis
        using False Some "3.prems" "3.IH"(1) by (auto split: option.splits)
    qed
  qed
qed

lemma remove_keeps:
  assumes "remove s j = (r, s')" "i \<noteq> j" "findNode i (root s) \<noteq> None"
  shows "findNode i (root s') \<noteq> None"
  using assms deleteNode_keeps(1)[of j "root s" _ i]
  by (auto simp: remove_def Let_def split: if_splits option.splits)

lemma keepsSystemRoots_refl: "keepsSystemRoots st st"
  by (simp add: keepsSystemRoots_def)

lemma keepsSystemRootsI:
  assumes "removeCalls (fst st') = removeCalls (fst st) @ rc" "set rc \<inter> set systemIds = {}"
    and "\<And>i. i \<in> set systemIds \<Longrightarrow> findNode i (root (fst st)) \<noteq> None \<Longrightarrow> findNode i (root (fst st')) \<noteq> None"
  shows "keepsSystemRoots st st'"
  unfolding keepsSystemRoots_def
proof (intro conjI exI ballI impI)
  show "removeCalls (fst st') = removeCalls (fst st) @ rc" by (rule assms(1))
  show "set rc \<inter> set systemIds = {}" by (rule assms(2))
  show "findNode i (root (fst st')) \<noteq> None"
    if "i \<in> set systemIds" "findNode i (root (fst st)) \<noteq> None" for i
    using that by (rule assms(3))
qed

lemma keepsSystemRoots_calls:
  assumes "keepsSystemRoots st st'"
  obtains rc where "removeCalls (fst st') = removeCalls (fst st) @ rc"
    "set rc \<inter> set systemIds = {}"
  using assms unfolding keepsSystemRoots_def by blast

lemma keepsSystemRoots_keeps:
  assumes "keepsSystemRoots st st'" "i \<in> set systemIds" "findNode i (root (fst st)) \<noteq> None"
  shows "findNode i (root (fst st')) \<noteq> None"
  using assms unfolding keepsSystemRoots_def by blast

lemma keepsSystemRoots_trans:
  assumes a: "keepsSystemRoots st st1" and b: "keepsSystemRoots st1 st2"
  shows "keepsSystemRoots st st2"
proof -
  from a obtain c1 where c1: "removeCalls (fst st1) = removeCalls (fst st) @ c1" "set c1 \<inter> set systemIds = {}"
    by (rule keepsSystemRoots_calls)
  from b obtain c2 where c2: "removeCalls (fst st2) = removeCalls (fst st1) @ c2" "set c2 \<inter> set systemIds = {}"
    by (rule keepsSystemRoots_calls)
  show ?thesis
  proof (rule keepsSystemRootsI)
    show "removeCalls (fst st2) = removeCalls (fst st) @ (c1 @ c2)" using c1 c2 by simp
    show "set (c1 @ c2) \<inter> set systemIds = {}" using c1 c2 by auto
    show "findNode i (root (fst st2)) \<noteq> None"
      if "i \<in> set systemIds" "findNode i (root (fst st)) \<noteq> None" for i
      by (rule keepsSystemRoots_keeps[OF b that(1) keepsSystemRoots_keeps[OF a that]])
  qed
qed

lemma keepsSystemRoots_remove:
  assumes "remove s i = (r, s2)" "i \<notin> set systemIds"
  shows "keepsSystemRoots (s, k) (s2, k')"
proof (rule keepsSystemRootsI)
  show "removeCalls (fst (s2, k')) = removeCalls (fst (s, k)) @ [i]"
    using remove_calls[OF assms(1)] by simp
  show "set [i] \<inter> set systemIds = {}" using assms(2) by simp
  show "findNode j (root (fst (s2, k'))) \<noteq> None"
    if "j \<in> set systemIds" "findNode j (root (fst (s, k))) \<noteq> None" for j
  proof -
    have "j \<noteq> i" using that(1) assms(2) by blast
    then show ?thesis using remove_keeps[OF assms(1)] that(2) by simp
  qed
qed

lemma traverse_guard:
  "traverseAndRemove t st = (b, st') \<Longrightarrow> keepsSystemRoots st st'"
  "traverseChildren ts h st = (b, st') \<Longrightarrow> keepsSystemRoots st st'"
proof (induction t st and ts h st arbitrary: b st' and b st' rule: traverseAndRemove_traverseChildren.induct)
  case (1 i t u cs s removedCount)
  let ?n = "Node i t u cs"
  show ?case
  proof (cases "isLink ?n")
    case True
    then show ?thesis using "1.prems" by (simp add: keepsSystemRoots_refl)
  next
    case False
    obtain h s1 k1 where ch: "(if cs \<noteq> [] then traverseChildren cs False (s, removedCount)
                  else (False, s, removedCount)) = (h, s1, k1)"
      by (metis prod_cases3)
    have p1: "keepsSystemRoots (s, removedCount) (s1, k1)"
    proof (cases "cs = []")
      case True
      then show ?thesis using ch by (simp add: keepsSystemRoots_refl)
    next
      case ne: False
      then have "traverseChildren cs False (s, removedCount) = (h, s1, k1)" using ch by simp
      then show ?thesis
        by (rule "1.IH"[OF False ne])
    qed
    show ?thesis
    proof (cases "\<not> h \<and> i \<notin> set systemIds")
      case True
      obtain r s2 where rm: "remove s1 i = (r, s2)" by (metis surj_pair)
      have st': "st' = (s2, if r = None then Suc k1 else k1)"
        using "1.prems"(1) False ch True rm by (cases r) (simp_all del: isLink_Node)
      have ns: "i \<notin> set systemIds" using True by simp
      show ?thesis
        unfolding st'
        by (rule keepsSystemRoots_trans[OF p1 keepsSystemRoots_remove[OF rm ns]])
    next
      case nr: False
      have "st' = (s1, k1)"
        using "1.prems"(1) False ch nr by (auto simp del: isLink_Node)
      then show ?thesis
        using p1 by simp
    qed
  qed
next
  case (2 hasChildren st)
  then show ?case by (simp add: keepsSystemRoots_refl)
next
  case (3 child rest hasChildren st)
  obtain x y where c: "traverseAndRemove child st = (x, y)" by (metis surj_pair)
  have r: "traverseChildren rest (if \<not> x then True else hasChildren) y = (b, st')"
    using "3.prems"(1) c by simp
  show ?case
    by (rule keepsSystemRoots_trans[OF "3.IH"(1)[OF c] "3.IH"(2)[OF c[symmetric] r]])
qed

lemma system_visit:
  assumes "nid t \<in> set systemIds" "\<not> isLink t"
  shows "traverseAndRemove t st =
     (case traverseChildren (children t) False st of (hasChildren, st') \<Rightarrow> (\<not> hasChildren, st'))"
  using assms by (cases t; cases st) (auto split: prod.splits simp del: isLink_Node)

text \<open>
  C2, as amended. The visit of a protected node that is no link reports "empty" exactly
  when none of its children reported "not empty", so a protected node without children
  reports "empty"; and no visit rc \<open>remove\<close> with a protected identifier or makes a
  protected node leave the store.
\<close>

theorem system_roots_never_removed:
  "(nid t \<in> set systemIds \<and> \<not> isLink t \<longrightarrow>
      traverseAndRemove t st =
        (case traverseChildren (children t) False st of
           (hasChildren, st') \<Rightarrow> (\<not> hasChildren, st'))) \<and>
   keepsSystemRoots st (snd (traverseAndRemove t st))"
proof -
  obtain b st' where r: "traverseAndRemove t st = (b, st')" by (metis surj_pair)
  have "keepsSystemRoots st st'" by (rule traverse_guard(1)[OF r])
  then show ?thesis using r system_visit[of t st] by simp
qed

theorem system_roots_never_removed_witness:
  "nid (Node (js ''1'') (js ''Bookmarks bar'') None []) \<in> set systemIds \<and>
   \<not> isLink (Node (js ''1'') (js ''Bookmarks bar'') None []) \<and>
   traverseAndRemove (Node (js ''1'') (js ''Bookmarks bar'') None []) (chromeStore, 0)
     = (True, chromeStore, 0) \<and>
   keepsSystemRoots (chromeStore, 0) (chromeStore, 0)"
  using system_roots_never_removed
          [of "Node (js ''1'') (js ''Bookmarks bar'') None []" "(chromeStore, 0)"]
  by (simp add: systemIds_def)

text \<open>
  The claim C2 as it is written fails: the visit of the bookmarks bar, a protected node
  without children, returns \<open>true\<close>, the report "empty".
\<close>

theorem system_root_reports_empty:
  "js ''1'' \<in> set systemIds \<and>
   fst (traverseAndRemove (Node (js ''1'') (js ''Bookmarks bar'') None []) (chromeStore, 0))
     = True"
  by (simp add: systemIds_def)

text \<open>
  C5. In a store that holds the protected root A, in it only the folder B, and in B only
  the empty folder C, the sweep removes C, then B, returns 2, and leaves A in the store
  without children.
\<close>

theorem removeEmptyFolders_cascade:
  assumes "a \<in> set systemIds" "b \<notin> set systemIds" "c \<notin> set systemIds" "b \<noteq> c"
  shows "removeEmptyFolders
           \<lparr>root = Node a ta None [Node b tb None [Node c tc None []]],
            nextId = k, removeCalls = log\<rparr>
         = (2, \<lparr>root = Node a ta None [], nextId = k, removeCalls = log @ [c, b]\<rparr>)"
proof -
  have "a \<noteq> b" "a \<noteq> c" using assms by auto
  then show ?thesis
    using assms by (simp add: removeEmptyFolders_def getTree_def remove_def Let_def)
qed

theorem removeEmptyFolders_cascade_witness:
  "js ''0'' \<in> set systemIds \<and> js ''10'' \<notin> set systemIds \<and> js ''11'' \<notin> set systemIds \<and>
   js ''10'' \<noteq> js ''11'' \<and>
   removeEmptyFolders
     \<lparr>root = Node (js ''0'') [] None
        [Node (js ''10'') (js ''Coding'') None [Node (js ''11'') (js ''Guides'') None []]],
      nextId = 12, removeCalls = []\<rparr>
   = (2, \<lparr>root = Node (js ''0'') [] None [], nextId = 12,
           removeCalls = [js ''11'', js ''10'']\<rparr>)"
proof -
  have h: "js ''0'' \<in> set systemIds" "js ''10'' \<notin> set systemIds" "js ''11'' \<notin> set systemIds"
    "js ''10'' \<noteq> js ''11''"
    by (simp_all add: systemIds_def js_def)
  show ?thesis
    using h removeEmptyFolders_cascade [OF h, of "[]" "js ''Coding''" "js ''Guides''" 12 "[]"]
    by simp
qed

text \<open>
  C9. The visit of a link returns "not empty" at once and changes nothing. The sweep calls
  \<open>remove\<close> only with identifiers of folders of the tree. In a store where no link has the
  identifier of a folder, the links after the sweep are the links before it, and the
  returned count is the number of folders that are gone.
\<close>

theorem removeEmptyFolders_keeps_links:
  "(isLink n \<longrightarrow> traverseAndRemove n st = (False, st)) \<and>
   (case removeEmptyFolders s of
      (removedCount, s') \<Rightarrow>
        (\<exists>cs. removeCalls s' = removeCalls s @ cs \<and> set cs \<subseteq> set (folderIds (root s))) \<and>
        (set (folderIds (root s)) \<inter> set (linkIds (root s)) = {} \<longrightarrow>
           links (root s') = links (root s) \<and>
           removedCount + length (folderIds (root s')) = length (folderIds (root s))))"
proof -
  have "traverseAndRemove n st = (False, st)" if "isLink n"
    using that by (cases n; cases st) (simp del: isLink_Node)
  moreover have "(case removeEmptyFolders s of
      (removedCount, s') \<Rightarrow>
        (\<exists>cs. removeCalls s' = removeCalls s @ cs \<and> set cs \<subseteq> set (folderIds (root s))) \<and>
        (set (folderIds (root s)) \<inter> set (linkIds (root s)) = {} \<longrightarrow>
           links (root s') = links (root s) \<and>
           removedCount + length (folderIds (root s')) = length (folderIds (root s))))"
  proof -
    obtain b s' k where r: "traverseAndRemove (root s) (s, 0) = (b, s', k)"
      by (metis prod_cases3)
    have p: "sweepPost (folderIds (root s)) (s, 0) (s', k)"
      by (rule traverse_invariant(1)[OF r])
    have e: "removeEmptyFolders s = (k, s')"
      using r by (simp add: removeEmptyFolders_def getTree_def)
    from p obtain rc where "removeCalls s' = removeCalls s @ rc" "set rc \<subseteq> set (folderIds (root s))"
      by (rule sweepPost_calls[elim_format]) auto
    then have "\<exists>cs. removeCalls s' = removeCalls s @ cs \<and> set cs \<subseteq> set (folderIds (root s))"
      by blast
    moreover have "links (root s') = links (root s) \<and>
           k + length (folderIds (root s')) = length (folderIds (root s))"
      if "set (folderIds (root s)) \<inter> set (linkIds (root s)) = {}"
      using sweepPost_links[OF p] that by simp
    ultimately show ?thesis
      unfolding e by simp
  qed
  ultimately show ?thesis by blast
qed

theorem removeEmptyFolders_keeps_links_witness:
  "isLink exampleLink \<and>
   traverseAndRemove exampleLink (chromeStore, 0) = (False, chromeStore, 0) \<and>
   set (folderIds (root (withBar [exampleLink, Node (js ''8'') (js ''Old'') None []] 9)))
     \<inter> set (linkIds (root (withBar [exampleLink, Node (js ''8'') (js ''Old'') None []] 9))) = {} \<and>
   links (root (snd (removeEmptyFolders (withBar [exampleLink, Node (js ''8'') (js ''Old'') None []] 9))))
     = links (root (withBar [exampleLink, Node (js ''8'') (js ''Old'') None []] 9))"
proof -
  have l: "isLink exampleLink" by (simp add: exampleLink_def js_def)
  have d: "set (folderIds (root (withBar [exampleLink, Node (js ''8'') (js ''Old'') None []] 9)))
     \<inter> set (linkIds (root (withBar [exampleLink, Node (js ''8'') (js ''Old'') None []] 9))) = {}"
    by (simp add: withBar_def exampleLink_def linkIds_def js_def)
  show ?thesis
    using l d removeEmptyFolders_keeps_links
        [of exampleLink "(chromeStore, 0)" "withBar [exampleLink, Node (js ''8'') (js ''Old'') None []] 9"]
    by (auto split: prod.splits)
qed

section \<open>Resolving a path twice\<close>

lemma normalize_a_slash: "normalizeFolderName latinTables (js ''a /'') = js ''a ''"
  by (simp add: normalizeFolderName_def latinTables_def string_eval)

lemma normalize_a_space: "normalizeFolderName latinTables (js ''a '') = js ''a''"
  by (simp add: normalizeFolderName_def latinTables_def string_eval)

lemma folderTitle_a_slash: "folderTitle (js ''a /'') = js ''a ''"
  by (simp add: folderTitle_def string_eval)

declare decimal.simps [simp del]

lemma decimal_5_6: "decimal 5 = js ''5''" "decimal 6 = js ''6''"
  by (simp_all add: decimal.simps js_def)

text \<open>
  C1 fails on the path \<open>["a /"]\<close>, which \<open>sanitizeFolderPath\<close> passes on as it is. The first
  call creates the folder "a " with the identifier 5 in the bookmarks bar. The key of the
  segment is "a " and the key of the new folder's title is "a", so the second call does
  not find the folder: it creates a second folder "a " beside it and returns the
  identifier 6.
\<close>

theorem ensureFolderPath_twice_differs:
  "sanitizeFolderPath latinTables [js ''a /''] = [js ''a /''] \<and>
   ensureFolderPath latinTables [js ''a /''] chromeStore
     = Inr (js ''5'', withBar [Node (js ''5'') (js ''a '') None []] 6) \<and>
   ensureFolderPath latinTables [js ''a /''] (withBar [Node (js ''5'') (js ''a '') None []] 6)
     = Inr (js ''6'', withBar [Node (js ''5'') (js ''a '') None [],
                               Node (js ''6'') (js ''a '') None []] 7)"
proof -
  have a: "js ''a '' \<noteq> js ''a''" "js ''0'' \<noteq> js ''1''" by (simp_all add: js_def)
  have "sanitizeFolderPath latinTables [js ''a /''] = [js ''a /'']"
    by (simp add: sanitizeFolderPath_def string_eval)
  moreover have "ensureFolderPath latinTables [js ''a /''] chromeStore
     = Inr (js ''5'', withBar [Node (js ''5'') (js ''a '') None []] 6)"
    using a
    by (simp add: ensureFolderPath_def findFolder_def getChildren_def createFolder_def
        chromeStore_def withBar_def normalize_a_slash folderTitle_a_slash decimal_5_6 Let_def)
  moreover have "ensureFolderPath latinTables [js ''a /''] (withBar [Node (js ''5'') (js ''a '') None []] 6)
     = Inr (js ''6'', withBar [Node (js ''5'') (js ''a '') None [],
                               Node (js ''6'') (js ''a '') None []] 7)"
    using a
    by (simp add: ensureFolderPath_def findFolder_def getChildren_def createFolder_def
        withBar_def normalize_a_slash normalize_a_space folderTitle_a_slash decimal_5_6 Let_def)
  ultimately show ?thesis by blast
qed

section \<open>Provider detection\<close>

text \<open>
  C3 fails on a credential that starts with \<open>xai-\<close> and has 44 characters: the rule for
  credentials longer than 40 characters is tried before the rule for the prefix \<open>xai-\<close>, and
  the credential resolves to Moonshot, not to Grok, also as the provider of a call without
  a preference. A short credential with the prefix resolves to Grok, and one that matches
  no rule to OpenRouter.
\<close>

theorem detectProvider_long_xai_key:
  "startsWith xaiKey (js ''xai-'') \<and> length xaiKey = 44 \<and>
   detectProvider xaiKey = moonshot \<and> moonshot \<noteq> grok \<and>
   selectProvider (freshClassifier\<lparr>apiKey := Some xaiKey\<rparr>) xaiKey = moonshot \<and>
   detectProvider (js ''xai-0123456789'') = grok \<and>
   detectProvider (js ''0123456789'') = openrouter"
  by (simp add: detectProvider_def selectProvider_def spreadCopy_def freshClassifier_def startsWith_def
      xaiKey_def moonshot_def grok_def js_def)

section \<open>The credential\<close>

lemma dropWhile_all: "list_all P xs \<Longrightarrow> dropWhile P xs = []"
  by (induction xs) auto

lemma trim_blank: "list_all isWhiteSpace k \<Longrightarrow> trim k = []"
  by (simp add: trim_def dropWhile_all)

text \<open>
  C10. A stored credential that consists of white space only is trimmed to the empty
  string, and the call then ends as it does without a credential: with the error "API key
  not configured", no request made and nothing persisted.
\<close>

theorem classifyUrl_blank_credential:
  "(getApiKey E = Some k \<and> list_all isWhiteSpace k \<longrightarrow>
      classifyUrl E cl w u t fs = (Inl (Error apiKeyNotConfigured), cl\<lparr>apiKey := Some []\<rparr>, w)) \<and>
   (getApiKey E = None \<longrightarrow>
      classifyUrl E cl w u t fs = (Inl (Error apiKeyNotConfigured), cl\<lparr>apiKey := None\<rparr>, w))"
  by (simp add: classifyUrl_def loadApiKey_def trim_blank)

theorem classifyUrl_blank_credential_witness:
  "getApiKey (exampleEnv (Some (js ''   '')) (\<lambda>_. notFound) None (Inr JNull)) = Some (js ''   '') \<and>
   list_all isWhiteSpace (js ''   '') \<and>
   classifyUrl (exampleEnv (Some (js ''   '')) (\<lambda>_. notFound) None (Inr JNull))
       freshClassifier freshWorld (js ''https://example.org/'') (js ''Example'') []
     = (Inl (Error apiKeyNotConfigured), freshClassifier\<lparr>apiKey := Some []\<rparr>, freshWorld) \<and>
   getApiKey (exampleEnv None (\<lambda>_. notFound) None (Inr JNull)) = None \<and>
   classifyUrl (exampleEnv None (\<lambda>_. notFound) None (Inr JNull))
       freshClassifier freshWorld (js ''https://example.org/'') (js ''Example'') []
     = (Inl (Error apiKeyNotConfigured), freshClassifier\<lparr>apiKey := None\<rparr>, freshWorld)"
proof -
  have a: "getApiKey (exampleEnv (Some (js ''   '')) (\<lambda>_. notFound) None (Inr JNull)) = Some (js ''   '')"
    "getApiKey (exampleEnv None (\<lambda>_. notFound) None (Inr JNull)) = None"
    by (simp_all add: exampleEnv_def)
  have b: "list_all isWhiteSpace (js ''   '')" by (simp add: js_def isWhiteSpace_def)
  show ?thesis
    using a b
      classifyUrl_blank_credential [of "exampleEnv (Some (js ''   '')) (\<lambda>_. notFound) None (Inr JNull)" "js ''   ''"
         freshClassifier freshWorld "js ''https://example.org/''" "js ''Example''" "[]"]
      classifyUrl_blank_credential [of "exampleEnv None (\<lambda>_. notFound) None (Inr JNull)" "[]"
         freshClassifier freshWorld "js ''https://example.org/''" "js ''Example''" "[]"]
    by simp
qed

section \<open>The parsed response\<close>

lemma take_3_of_5: "length xs = 5 \<Longrightarrow> take 3 xs = [xs ! 0, xs ! 1, xs ! 2]"
  by (simp add: numeral_3_eq_3 numeral_2_eq_2 take_Suc_conv_app_nth)

lemma parseResponse_array:
  assumes "result \<noteq> []" "parseJSON E (cleanResult result) = Inr parsed"
    "getProperty parsed (js ''folderPath'') = Some (Some (JArray xs))"
  shows "parseResponse E result =
     Inr \<lparr>folderPath = take 3 xs,
          tags = (case getProperty parsed (js ''tags'') of
                    Some (Some t) \<Rightarrow> if truthy t then t else JArray []
                  | _ \<Rightarrow> JArray [])\<rparr>"
  using assms by (simp add: parseResponse_def)

lemma parseResponse_Inr:
  assumes "parseResponse E result = Inr r"
  shows "\<exists>parsed xs. result \<noteq> [] \<and> parseJSON E (cleanResult result) = Inr parsed \<and>
           getProperty parsed (js ''folderPath'') = Some (Some (JArray xs)) \<and>
           folderPath r = take 3 xs \<and>
           (getProperty parsed (js ''tags'') = Some None \<longrightarrow> tags r = JArray [])"
  using assms
  by (auto simp: parseResponse_def split: if_splits sum.splits option.splits json.splits)

lemma finishClassification_Inr:
  "finishClassification E outcome = Inr r \<Longrightarrow> \<exists>result. parseResponse E result = Inr r"
  by (auto simp: finishClassification_def split: sum.splits)

lemma classifyUrl_Inr:
  "fst (classifyUrl E cl w u t fs) = Inr r \<Longrightarrow> \<exists>outcome. finishClassification E outcome = Inr r"
  by (auto simp: classifyUrl_def Let_def split: option.splits if_splits prod.splits sum.splits)

text \<open>
  The call as far as the attempts: with a credential, a provider, the key that the client
  gets (for GitHub Copilot the exchanged token) and a client that can be constructed, the
  result of \<open>classifyUrl\<close> is what the outer \<open>try\<close> makes of the attempts.
\<close>

lemma classifyUrl_attempts:
  assumes "getApiKey E = Some k" "trim k \<noteq> []"
    and "prov = selectProvider (loadPreferences E w (loadApiKey E cl)) (trim k)"
    and "(if name prov = Some (js ''GitHub Copilot'') then getGitHubCopilotToken E (trim k)
          else Inr (Some (trim k))) = Inr actualKey"
    and "config = \<lparr>cfgApiKey = actualKey, cfgBaseURL = baseURL prov,
                    cfgCopilotHeaders = (name prov = Some (js ''GitHub Copilot''))\<rparr>"
    and "clientError E config = None"
    and "req = \<lparr>reqConfig = config, reqModel = model prov, reqUrl = u, reqTitle = t,
                 reqExistingFolders = fs\<rparr>"
  shows "fst (classifyUrl E cl w u t fs) =
     finishClassification E
       (fst (runAttempts E (trim k) prov req
          (if name prov = Some (js ''GitHub Copilot'')
           then w\<lparr>calls := calls w @ [LoadPreferences, CopilotTokenRequest (trim k)]\<rparr>
           else w\<lparr>calls := calls w @ [LoadPreferences]\<rparr>)))"
proof -
  have a: "apiKey (loadApiKey E cl) = Some (trim k)"
    using assms(1) by (simp add: loadApiKey_def)
  have p: "selectProvider (loadPreferences E w (loadApiKey E cl)) (trim k) = prov"
    using assms(3) by simp
  show ?thesis
  proof (cases "name prov = Some (js ''GitHub Copilot'')")
    case True
    then have tok: "getGitHubCopilotToken E (trim k) = Inr actualKey" using assms(4) by simp
    have c: "clientError E \<lparr>cfgApiKey = actualKey, cfgBaseURL = baseURL prov,
                    cfgCopilotHeaders = True\<rparr> = None"
      using assms(5,6) True by simp
    show ?thesis
      unfolding classifyUrl_def
      using assms(2) True
      by (simp add: Let_def a p tok c assms(5,7) split: prod.splits)
  next
    case False
    then have tok: "actualKey = Some (trim k)" using assms(4) by simp
    have c: "clientError E \<lparr>cfgApiKey = Some (trim k), cfgBaseURL = baseURL prov,
                    cfgCopilotHeaders = False\<rparr> = None"
      using assms(5,6) False tok by simp
    show ?thesis
      unfolding classifyUrl_def
      using assms(2) False
      by (simp add: Let_def a p tok c assms(5,7) split: prod.splits)
  qed
qed

lemma runAttempts_first_answer:
  assumes "complete E 0 req = Inr content"
  shows "fst (runAttempts E key prov req w) = Inr (case content of None \<Rightarrow> [] | Some c \<Rightarrow> c)"
  using assms by (simp add: runAttempts_def attemptClassification_def)

lemma runAttempts_second_answer:
  assumes "name prov = Some (js ''OpenRouter'')"
    "complete E 0 req = Inl (APIError (Some 404) msg)"
    "chooseDefaultOpenRouterModel E key = Some m" "m \<noteq> []"
    "complete E 1 (req\<lparr>reqModel := Some m\<rparr>) = Inr content"
  shows "fst (runAttempts E key prov req w) = Inr (case content of None \<Rightarrow> [] | Some c \<Rightarrow> c)"
  using assms
  by (simp add: runAttempts_def attemptClassification_def isNotFound_def Let_def)

lemma finishClassification_array:
  assumes "answer \<noteq> []" "parseJSON E (cleanResult answer) = Inr parsed"
    "getProperty parsed (js ''folderPath'') = Some (Some (JArray xs))"
  shows "finishClassification E (Inr answer) =
     Inr \<lparr>folderPath = take 3 xs,
          tags = (case getProperty parsed (js ''tags'') of
                    Some (Some t) \<Rightarrow> if truthy t then t else JArray []
                  | _ \<Rightarrow> JArray [])\<rparr>"
  using parseResponse_array[OF assms] by (simp add: finishClassification_def)

text \<open>
  C8. When the response parses to a value whose \<open>folderPath\<close> is an array, the result holds
  the first three elements of it at most (of five elements the first three), and its
  \<open>tags\<close> are the empty array when the parsed value has none. Every result that
  \<open>classifyUrl\<close> returns is made this way; and \<open>classifyUrl\<close> returns this result for the
  answer that its completion request received: for the answer to the first request, and
  after a fallback for the answer to the second.
\<close>

theorem classifyUrl_truncates_folderPath:
  "(result \<noteq> [] \<and> parseJSON E (cleanResult result) = Inr parsed \<and>
    getProperty parsed (js ''folderPath'') = Some (Some (JArray xs)) \<longrightarrow>
      (\<exists>r. parseResponse E result = Inr r \<and> folderPath r = take 3 xs \<and>
           length (folderPath r) \<le> 3 \<and>
           (length xs = 5 \<longrightarrow> folderPath r = [xs ! 0, xs ! 1, xs ! 2]) \<and>
           (getProperty parsed (js ''tags'') = Some None \<longrightarrow> tags r = JArray []))) \<and>
   (fst (classifyUrl E cl w u t fs) = Inr r' \<longrightarrow>
      (\<exists>raw value ys. raw \<noteq> [] \<and> parseJSON E (cleanResult raw) = Inr value \<and>
           getProperty value (js ''folderPath'') = Some (Some (JArray ys)) \<and>
           parseResponse E raw = Inr r' \<and> folderPath r' = take 3 ys \<and>
           (getProperty value (js ''tags'') = Some None \<longrightarrow> tags r' = JArray []))) \<and>
   (getApiKey E = Some k \<and> trim k \<noteq> [] \<and>
    prov = selectProvider (loadPreferences E w (loadApiKey E cl)) (trim k) \<and>
    (if name prov = Some (js ''GitHub Copilot'') then getGitHubCopilotToken E (trim k)
     else Inr (Some (trim k))) = Inr actualKey \<and>
    config = \<lparr>cfgApiKey = actualKey, cfgBaseURL = baseURL prov,
              cfgCopilotHeaders = (name prov = Some (js ''GitHub Copilot''))\<rparr> \<and>
    clientError E config = None \<and>
    req = \<lparr>reqConfig = config, reqModel = model prov, reqUrl = u, reqTitle = t,
           reqExistingFolders = fs\<rparr> \<and>
    answer \<noteq> [] \<and> parseJSON E (cleanResult answer) = Inr parsed \<and>
    getProperty parsed (js ''folderPath'') = Some (Some (JArray xs)) \<and>
    (complete E 0 req = Inr (Some answer) \<or>
     name prov = Some (js ''OpenRouter'') \<and>
     (\<exists>msg. complete E 0 req = Inl (APIError (Some 404) msg)) \<and>
     (\<exists>m. chooseDefaultOpenRouterModel E (trim k) = Some m \<and> m \<noteq> [] \<and>
          complete E 1 (req\<lparr>reqModel := Some m\<rparr>) = Inr (Some answer))) \<longrightarrow>
      fst (classifyUrl E cl w u t fs) =
        Inr \<lparr>folderPath = take 3 xs,
             tags = (case getProperty parsed (js ''tags'') of
                       Some (Some t) \<Rightarrow> if truthy t then t else JArray []
                     | _ \<Rightarrow> JArray [])\<rparr>)"
proof (intro conjI impI)
  assume a: "result \<noteq> [] \<and> parseJSON E (cleanResult result) = Inr parsed \<and>
    getProperty parsed (js ''folderPath'') = Some (Some (JArray xs))"
  then have "parseResponse E result =
     Inr \<lparr>folderPath = take 3 xs,
          tags = (case getProperty parsed (js ''tags'') of
                    Some (Some t) \<Rightarrow> if truthy t then t else JArray []
                  | _ \<Rightarrow> JArray [])\<rparr>"
    by (simp add: parseResponse_array)
  then show "\<exists>r. parseResponse E result = Inr r \<and> folderPath r = take 3 xs \<and>
           length (folderPath r) \<le> 3 \<and>
           (length xs = 5 \<longrightarrow> folderPath r = [xs ! 0, xs ! 1, xs ! 2]) \<and>
           (getProperty parsed (js ''tags'') = Some None \<longrightarrow> tags r = JArray [])"
    by (simp add: take_3_of_5)
next
  assume "fst (classifyUrl E cl w u t fs) = Inr r'"
  then obtain raw where raw: "parseResponse E raw = Inr r'"
    using classifyUrl_Inr finishClassification_Inr by blast
  from parseResponse_Inr[OF raw] raw
  show "\<exists>raw value ys. raw \<noteq> [] \<and> parseJSON E (cleanResult raw) = Inr value \<and>
           getProperty value (js ''folderPath'') = Some (Some (JArray ys)) \<and>
           parseResponse E raw = Inr r' \<and> folderPath r' = take 3 ys \<and>
           (getProperty value (js ''tags'') = Some None \<longrightarrow> tags r' = JArray [])"
    by blast
next
  assume h: "getApiKey E = Some k \<and> trim k \<noteq> [] \<and>
    prov = selectProvider (loadPreferences E w (loadApiKey E cl)) (trim k) \<and>
    (if name prov = Some (js ''GitHub Copilot'') then getGitHubCopilotToken E (trim k)
     else Inr (Some (trim k))) = Inr actualKey \<and>
    config = \<lparr>cfgApiKey = actualKey, cfgBaseURL = baseURL prov,
              cfgCopilotHeaders = (name prov = Some (js ''GitHub Copilot''))\<rparr> \<and>
    clientError E config = None \<and>
    req = \<lparr>reqConfig = config, reqModel = model prov, reqUrl = u, reqTitle = t,
           reqExistingFolders = fs\<rparr> \<and>
    answer \<noteq> [] \<and> parseJSON E (cleanResult answer) = Inr parsed \<and>
    getProperty parsed (js ''folderPath'') = Some (Some (JArray xs)) \<and>
    (complete E 0 req = Inr (Some answer) \<or>
     name prov = Some (js ''OpenRouter'') \<and>
     (\<exists>msg. complete E 0 req = Inl (APIError (Some 404) msg)) \<and>
     (\<exists>m. chooseDefaultOpenRouterModel E (trim k) = Some m \<and> m \<noteq> [] \<and>
          complete E 1 (req\<lparr>reqModel := Some m\<rparr>) = Inr (Some answer)))"
  let ?w1 = "if name prov = Some (js ''GitHub Copilot'')
           then w\<lparr>calls := calls w @ [LoadPreferences, CopilotTokenRequest (trim k)]\<rparr>
           else w\<lparr>calls := calls w @ [LoadPreferences]\<rparr>"
  from h have h1: "getApiKey E = Some k" and h2: "trim k \<noteq> []"
    and h3: "prov = selectProvider (loadPreferences E w (loadApiKey E cl)) (trim k)"
    and h4: "(if name prov = Some (js ''GitHub Copilot'') then getGitHubCopilotToken E (trim k)
          else Inr (Some (trim k))) = Inr actualKey"
    and h5: "config = \<lparr>cfgApiKey = actualKey, cfgBaseURL = baseURL prov,
                    cfgCopilotHeaders = (name prov = Some (js ''GitHub Copilot''))\<rparr>"
    and h6: "clientError E config = None"
    and h7: "req = \<lparr>reqConfig = config, reqModel = model prov, reqUrl = u, reqTitle = t,
                 reqExistingFolders = fs\<rparr>"
    and h8: "answer \<noteq> []" and h9: "parseJSON E (cleanResult answer) = Inr parsed"
    and h10: "getProperty parsed (js ''folderPath'') = Some (Some (JArray xs))"
    and h11: "complete E 0 req = Inr (Some answer) \<or>
     name prov = Some (js ''OpenRouter'') \<and>
     (\<exists>msg. complete E 0 req = Inl (APIError (Some 404) msg)) \<and>
     (\<exists>m. chooseDefaultOpenRouterModel E (trim k) = Some m \<and> m \<noteq> [] \<and>
          complete E 1 (req\<lparr>reqModel := Some m\<rparr>) = Inr (Some answer))"
    by blast+
  have c: "fst (classifyUrl E cl w u t fs) =
     finishClassification E (fst (runAttempts E (trim k) prov req ?w1))"
    by (rule classifyUrl_attempts[OF h1 h2 h3 h4 h5 h6 h7])
  from h11 have r: "fst (runAttempts E (trim k) prov req ?w1) = Inr answer"
  proof
    assume "complete E 0 req = Inr (Some answer)"
    from runAttempts_first_answer[OF this] show ?thesis by simp
  next
    assume "name prov = Some (js ''OpenRouter'') \<and>
     (\<exists>msg. complete E 0 req = Inl (APIError (Some 404) msg)) \<and>
     (\<exists>m. chooseDefaultOpenRouterModel E (trim k) = Some m \<and> m \<noteq> [] \<and>
          complete E 1 (req\<lparr>reqModel := Some m\<rparr>) = Inr (Some answer))"
    then obtain msg m where "name prov = Some (js ''OpenRouter'')"
      "complete E 0 req = Inl (APIError (Some 404) msg)"
      "chooseDefaultOpenRouterModel E (trim k) = Some m" "m \<noteq> []"
      "complete E 1 (req\<lparr>reqModel := Some m\<rparr>) = Inr (Some answer)"
      by blast
    from runAttempts_second_answer[OF this] show ?thesis by simp
  qed
  have "finishClassification E (Inr answer) =
     Inr \<lparr>folderPath = take 3 xs,
          tags = (case getProperty parsed (js ''tags'') of
                    Some (Some t) \<Rightarrow> if truthy t then t else JArray []
                  | _ \<Rightarrow> JArray [])\<rparr>"
    by (rule finishClassification_array[OF h8 h9 h10])
  then show "fst (classifyUrl E cl w u t fs) =
        Inr \<lparr>folderPath = take 3 xs,
             tags = (case getProperty parsed (js ''tags'') of
                       Some (Some t) \<Rightarrow> if truthy t then t else JArray []
                     | _ \<Rightarrow> JArray [])\<rparr>"
    unfolding c r .
qed

lemma detect_openRouterKey: "detectProvider openRouterKey = openrouter"
  by (simp add: detectProvider_def startsWith_def openRouterKey_def js_def)

lemma trim_openRouterKey: "trim openRouterKey = openRouterKey"
  by (simp add: openRouterKey_def string_eval)

lemma openRouterKey_nonempty: "openRouterKey \<noteq> []"
  by (simp add: openRouterKey_def js_def)

lemma provider_names:
  "name openrouter = Some (js ''OpenRouter'')" "js ''OpenRouter'' \<noteq> js ''GitHub Copilot''"
  by (simp_all add: openrouter_def js_def)

lemma example_provider:
  "selectProvider (loadPreferences (exampleEnv (Some openRouterKey) outcomes fallback parsed)
                     freshWorld
                     (loadApiKey (exampleEnv (Some openRouterKey) outcomes fallback parsed)
                        freshClassifier))
     (trim openRouterKey) = openrouter"
  by (simp add: selectProvider_def spreadCopy_def loadPreferences_def loadApiKey_def exampleEnv_def
      freshClassifier_def freshWorld_def trim_openRouterKey detect_openRouterKey)

lemma parsing_provider:
  "selectProvider (loadPreferences (parsingEnv (Some openRouterKey) outcomes fallback) freshWorld
                     (loadApiKey (parsingEnv (Some openRouterKey) outcomes fallback)
                        freshClassifier))
     (trim openRouterKey) = openrouter"
  by (simp add: selectProvider_def spreadCopy_def loadPreferences_def loadApiKey_def parsingEnv_def
      exampleEnv_def freshClassifier_def freshWorld_def trim_openRouterKey detect_openRouterKey)

lemma stripFences_numeral:
  "stripFences (numeral n) (c # cs) = stripFences (pred_numeral n) cs"
  by (simp add: numeral_eq_Suc)

lemma cleanResult_fencedAnswer: "cleanResult fencedAnswer = folderPathText"
  by (simp add: cleanResult_def fencedAnswer_def folderPathText_def quoted_def fence_def
      startsWith_def string_eval stripFences_numeral)

lemma fencedAnswer_nonempty: "fencedAnswer \<noteq> []"
  by (simp add: fencedAnswer_def fence_def)

lemma folderPathObject_properties:
  "getProperty folderPathObject (js ''folderPath'') = Some (Some (JArray fiveFolders))"
  "getProperty folderPathObject (js ''tags'') = Some None"
  by (simp_all add: folderPathObject_def js_def)

theorem classifyUrl_truncates_folderPath_witness:
  "fencedAnswer \<noteq> [] \<and>
   parseJSON (parsingEnv (Some openRouterKey) (\<lambda>_. Inr (Some fencedAnswer)) None)
       (cleanResult fencedAnswer) = Inr folderPathObject \<and>
   getProperty folderPathObject (js ''folderPath'') = Some (Some (JArray fiveFolders)) \<and>
   length fiveFolders = 5 \<and>
   getProperty folderPathObject (js ''tags'') = Some None \<and>
   complete (parsingEnv (Some openRouterKey) (\<lambda>_. Inr (Some fencedAnswer)) None) 0
       \<lparr>reqConfig = \<lparr>cfgApiKey = Some (trim openRouterKey), cfgBaseURL = baseURL openrouter,
                     cfgCopilotHeaders = False\<rparr>,
        reqModel = model openrouter, reqUrl = js ''https://example.org/'',
        reqTitle = js ''Example'', reqExistingFolders = []\<rparr>
     = Inr (Some fencedAnswer) \<and>
   fst (classifyUrl (parsingEnv (Some openRouterKey) (\<lambda>_. Inr (Some fencedAnswer)) None)
          freshClassifier freshWorld (js ''https://example.org/'') (js ''Example'') [])
     = Inr \<lparr>folderPath = [JString (js ''A''), JString (js ''B''), JString (js ''C'')],
            tags = JArray []\<rparr> \<and>
   (\<exists>r. parseResponse (parsingEnv (Some openRouterKey) (\<lambda>_. Inr (Some fencedAnswer)) None)
            fencedAnswer = Inr r \<and>
        folderPath r = [JString (js ''A''), JString (js ''B''), JString (js ''C'')] \<and>
        tags r = JArray []) \<and>
   fst (classifyUrl
          (parsingEnv (Some openRouterKey)
             (\<lambda>n. if n = 0 then notFound else Inr (Some fencedAnswer))
             (Some (js ''openai/gpt-4o'')))
          freshClassifier freshWorld (js ''https://example.org/'') (js ''Example'') [])
     = Inr \<lparr>folderPath = [JString (js ''A''), JString (js ''B''), JString (js ''C'')],
            tags = JArray []\<rparr>"
proof -
  let ?E = "parsingEnv (Some openRouterKey) (\<lambda>_. Inr (Some fencedAnswer)) None"
  let ?F = "parsingEnv (Some openRouterKey)
             (\<lambda>n. if n = 0 then notFound else Inr (Some fencedAnswer))
             (Some (js ''openai/gpt-4o''))"
  let ?cfg = "\<lparr>cfgApiKey = Some (trim openRouterKey), cfgBaseURL = baseURL openrouter,
               cfgCopilotHeaders = False\<rparr>"
  let ?req = "\<lparr>reqConfig = ?cfg, reqModel = model openrouter, reqUrl = js ''https://example.org/'',
               reqTitle = js ''Example'', reqExistingFolders = []\<rparr>"
  let ?r = "\<lparr>folderPath = [JString (js ''A''), JString (js ''B''), JString (js ''C'')],
             tags = JArray []\<rparr>"
  have k: "trim openRouterKey \<noteq> []"
    by (simp add: trim_openRouterKey openRouterKey_nonempty)
  have m: "js ''openai/gpt-4o'' \<noteq> []" by (simp add: js_def)
  have nc: "name openrouter \<noteq> Some (js ''GitHub Copilot'')"
    using provider_names by simp
  have five: "length fiveFolders = 5" by (simp add: fiveFolders_def)
  have e: "getApiKey ?E = Some openRouterKey" "clientError ?E ?cfg = None"
    "complete ?E 0 ?req = Inr (Some fencedAnswer)"
    "parseJSON ?E (cleanResult fencedAnswer) = Inr folderPathObject"
    by (simp_all add: parsingEnv_def exampleEnv_def cleanResult_fencedAnswer)
  have f: "getApiKey ?F = Some openRouterKey" "clientError ?F ?cfg = None"
    "complete ?F 0 ?req = Inl (APIError (Some 404) (js ''model not found''))"
    "chooseDefaultOpenRouterModel ?F (trim openRouterKey) = Some (js ''openai/gpt-4o'')"
    "complete ?F 1 (?req\<lparr>reqModel := Some (js ''openai/gpt-4o'')\<rparr>) = Inr (Some fencedAnswer)"
    "parseJSON ?F (cleanResult fencedAnswer) = Inr folderPathObject"
    by (simp_all add: parsingEnv_def exampleEnv_def notFound_def cleanResult_fencedAnswer)
  note t1 = classifyUrl_truncates_folderPath
      [of fencedAnswer ?E folderPathObject fiveFolders freshClassifier freshWorld
          "js ''https://example.org/''" "js ''Example''" "[]" ?r openRouterKey openrouter
          "Some (trim openRouterKey)" ?cfg ?req fencedAnswer]
  note t2 = classifyUrl_truncates_folderPath
      [of fencedAnswer ?F folderPathObject fiveFolders freshClassifier freshWorld
          "js ''https://example.org/''" "js ''Example''" "[]" ?r openRouterKey openrouter
          "Some (trim openRouterKey)" ?cfg ?req fencedAnswer]
  have c1: "fst (classifyUrl ?E freshClassifier freshWorld (js ''https://example.org/'')
                  (js ''Example'') []) = Inr ?r"
    using t1 k nc e fencedAnswer_nonempty folderPathObject_properties parsing_provider
    by (simp add: fiveFolders_def)
  have c2: "fst (classifyUrl ?F freshClassifier freshWorld (js ''https://example.org/'')
                  (js ''Example'') []) = Inr ?r"
    using t2 k m nc f fencedAnswer_nonempty folderPathObject_properties parsing_provider
      provider_names(1)
    by (simp add: fiveFolders_def)
  have p: "\<exists>r. parseResponse ?E fencedAnswer = Inr r \<and>
        folderPath r = [JString (js ''A''), JString (js ''B''), JString (js ''C'')] \<and>
        tags r = JArray []"
    using t1 e(4) fencedAnswer_nonempty folderPathObject_properties
    by (auto simp: fiveFolders_def)
  show ?thesis
    using fencedAnswer_nonempty e(3,4) folderPathObject_properties five c1 c2 p by simp
qed

section \<open>The fallback\<close>

lemma classifyUrl_openrouter:
  assumes key: "getApiKey E = Some k" "trim k \<noteq> []"
    and prov: "prov = selectProvider (loadPreferences E w (loadApiKey E cl)) (trim k)"
      "name prov = Some (js ''OpenRouter'')"
    and config: "config = \<lparr>cfgApiKey = Some (trim k), cfgBaseURL = baseURL prov,
                           cfgCopilotHeaders = False\<rparr>"
      "clientError E config = None"
    and req: "req = \<lparr>reqConfig = config, reqModel = model prov, reqUrl = u, reqTitle = t,
                      reqExistingFolders = fs\<rparr>"
  shows "classifyUrl E cl w u t fs =
     (case runAttempts E (trim k) prov req (w\<lparr>calls := calls w @ [LoadPreferences]\<rparr>) of
        (outcome, w3) \<Rightarrow>
          (finishClassification E outcome, loadPreferences E w (loadApiKey E cl), w3))"
proof -
  have a: "apiKey (loadApiKey E cl) = Some (trim k)"
    using key by (simp add: loadApiKey_def)
  show ?thesis
    unfolding classifyUrl_def Let_def a
    using key(2) prov config req provider_names(2)
    by (simp add: Let_def)
qed

lemma runAttempts_not_found:
  assumes "name prov = Some (js ''OpenRouter'')" "complete E 0 req = Inl (APIError (Some 404) msg)"
  shows "runAttempts E key prov req w =
     (case chooseDefaultOpenRouterModel E key of
        None \<Rightarrow>
          (Inl (Error noFallbackModel),
           w\<lparr>persistedModel := None,
             calls := calls w @ [Completion req, ClearSelectedModel, ChooseDefaultModel key]\<rparr>)
      | Some m \<Rightarrow>
          if m \<noteq> []
          then (case complete E 1 (req\<lparr>reqModel := Some m\<rparr>) of
                  Inl e \<Rightarrow> Inl e
                | Inr content \<Rightarrow> Inr (case content of None \<Rightarrow> [] | Some c \<Rightarrow> c),
                w\<lparr>persistedModel := Some m,
                  calls := calls w @ [Completion req, ClearSelectedModel, ChooseDefaultModel key,
                                      SetSelectedModel m, Completion (req\<lparr>reqModel := Some m\<rparr>)]\<rparr>)
          else (Inl (Error noFallbackModel),
                w\<lparr>persistedModel := None,
                  calls := calls w @ [Completion req, ClearSelectedModel, ChooseDefaultModel key]\<rparr>))"
  using assms
  by (simp add: runAttempts_def attemptClassification_def isNotFound_def
      clearSelectedOpenRouterModel_def setSelectedOpenRouterModel_def Let_def
      split: option.splits)

lemma translate_not_found:
  "translateError (APIError (Some 404) msg) = Error (apiErrorMessage (Some 404) msg)"
  by (simp add: translateError_def)

lemma translate_no_fallback:
  "translateError (Error noFallbackModel) = Error (classificationFailed noFallbackModel)"
  by (simp add: translateError_def)

text \<open>
  C4, as amended. The provider of the call is OpenRouter and the first completion request
  fails with status 404. Then the persisted model choice is cleared and a default model is
  asked for. If there is one, it is persisted and tried in a second completion request, the
  last of the call, whose outcome is the outcome of the call; when that is status 404
  again, the call fails with the message "API Error (404): ...". If there is none, the
  call fails with "Classification failed: No fallback OpenRouter model available." after
  the one completion request.
\<close>

theorem classifyUrl_fallback_once:
  assumes "getApiKey E = Some k" and "trim k \<noteq> []"
    and "prov = selectProvider (loadPreferences E w (loadApiKey E cl)) (trim k)"
    and "name prov = Some (js ''OpenRouter'')"
    and "config = \<lparr>cfgApiKey = Some (trim k), cfgBaseURL = baseURL prov,
                    cfgCopilotHeaders = False\<rparr>"
    and "clientError E config = None"
    and "req = \<lparr>reqConfig = config, reqModel = model prov, reqUrl = u, reqTitle = t,
                 reqExistingFolders = fs\<rparr>"
    and "complete E 0 req = Inl (APIError (Some 404) msg)"
    and "classifyUrl E cl w u t fs = (res, cl', w')"
  shows "(\<forall>m. chooseDefaultOpenRouterModel E (trim k) = Some m \<and> m \<noteq> [] \<longrightarrow>
            calls w' = calls w @ [LoadPreferences, Completion req, ClearSelectedModel,
                                  ChooseDefaultModel (trim k), SetSelectedModel m,
                                  Completion (req\<lparr>reqModel := Some m\<rparr>)] \<and>
            persistedModel w' = Some m \<and>
            res = finishClassification E
                    (case complete E 1 (req\<lparr>reqModel := Some m\<rparr>) of
                       Inl e \<Rightarrow> Inl e
                     | Inr content \<Rightarrow> Inr (case content of None \<Rightarrow> [] | Some c \<Rightarrow> c)) \<and>
            (\<forall>msg'. complete E 1 (req\<lparr>reqModel := Some m\<rparr>) = Inl (APIError (Some 404) msg') \<longrightarrow>
                    res = Inl (Error (apiErrorMessage (Some 404) msg')))) \<and>
         (chooseDefaultOpenRouterModel E (trim k) = None \<or>
          chooseDefaultOpenRouterModel E (trim k) = Some [] \<longrightarrow>
            calls w' = calls w @ [LoadPreferences, Completion req, ClearSelectedModel,
                                  ChooseDefaultModel (trim k)] \<and>
            persistedModel w' = None \<and>
            res = Inl (Error (classificationFailed noFallbackModel)))"
proof -
  note c = classifyUrl_openrouter[OF assms(1-7)]
  note r = runAttempts_not_found[OF assms(4) assms(8), of "trim k" "w\<lparr>calls := calls w @ [LoadPreferences]\<rparr>"]
  show ?thesis
    using assms(9) unfolding c r
    by (auto simp: finishClassification_def translate_not_found translate_no_fallback
        split: option.splits if_splits)
qed

lemma decimal_404: "decimal 404 = js ''404''"
  by (simp add: decimal.simps[of 404] decimal.simps[of 40] decimal.simps[of 4] js_def)

theorem classifyUrl_fallback_once_witness:
  "getApiKey (exampleEnv (Some openRouterKey) (\<lambda>_. notFound) (Some (js ''openai/gpt-4o'')) (Inr JNull))
     = Some openRouterKey \<and>
   trim openRouterKey \<noteq> [] \<and>
   name openrouter = Some (js ''OpenRouter'') \<and>
   chooseDefaultOpenRouterModel
       (exampleEnv (Some openRouterKey) (\<lambda>_. notFound) (Some (js ''openai/gpt-4o'')) (Inr JNull))
       (trim openRouterKey) = Some (js ''openai/gpt-4o'') \<and>
   js ''openai/gpt-4o'' \<noteq> [] \<and>
   calls (snd (snd (classifyUrl
       (exampleEnv (Some openRouterKey) (\<lambda>_. notFound) (Some (js ''openai/gpt-4o'')) (Inr JNull))
       freshClassifier freshWorld (js ''https://example.org/'') (js ''Example'') [])))
     = calls freshWorld @
       [LoadPreferences,
        Completion \<lparr>reqConfig = \<lparr>cfgApiKey = Some (trim openRouterKey),
                      cfgBaseURL = baseURL openrouter, cfgCopilotHeaders = False\<rparr>,
                    reqModel = model openrouter, reqUrl = js ''https://example.org/'',
                    reqTitle = js ''Example'', reqExistingFolders = []\<rparr>,
        ClearSelectedModel, ChooseDefaultModel (trim openRouterKey),
        SetSelectedModel (js ''openai/gpt-4o''),
        Completion \<lparr>reqConfig = \<lparr>cfgApiKey = Some (trim openRouterKey),
                      cfgBaseURL = baseURL openrouter, cfgCopilotHeaders = False\<rparr>,
                    reqModel = Some (js ''openai/gpt-4o''), reqUrl = js ''https://example.org/'',
                    reqTitle = js ''Example'', reqExistingFolders = []\<rparr>] \<and>
   fst (classifyUrl
       (exampleEnv (Some openRouterKey) (\<lambda>_. notFound) (Some (js ''openai/gpt-4o'')) (Inr JNull))
       freshClassifier freshWorld (js ''https://example.org/'') (js ''Example'') [])
     = Inl (Error (apiErrorMessage (Some 404) (js ''model not found''))) \<and>
   chooseDefaultOpenRouterModel
       (exampleEnv (Some openRouterKey) (\<lambda>_. notFound) None (Inr JNull))
       (trim openRouterKey) = None \<and>
   fst (classifyUrl
       (exampleEnv (Some openRouterKey) (\<lambda>_. notFound) None (Inr JNull))
       freshClassifier freshWorld (js ''https://example.org/'') (js ''Example'') [])
     = Inl (Error (classificationFailed noFallbackModel)) \<and>
   persistedModel (snd (snd (classifyUrl
       (exampleEnv (Some openRouterKey) (\<lambda>_. notFound) None (Inr JNull))
       freshClassifier freshWorld (js ''https://example.org/'') (js ''Example'') []))) = None"
proof -
  let ?E1 = "exampleEnv (Some openRouterKey) (\<lambda>_. notFound) (Some (js ''openai/gpt-4o'')) (Inr JNull)"
  let ?E2 = "exampleEnv (Some openRouterKey) (\<lambda>_. notFound) None (Inr JNull)"
  let ?cfg = "\<lparr>cfgApiKey = Some (trim openRouterKey), cfgBaseURL = baseURL openrouter,
               cfgCopilotHeaders = False\<rparr>"
  let ?req = "\<lparr>reqConfig = ?cfg, reqModel = model openrouter, reqUrl = js ''https://example.org/'',
               reqTitle = js ''Example'', reqExistingFolders = []\<rparr>"
  let ?r1 = "classifyUrl ?E1 freshClassifier freshWorld (js ''https://example.org/'') (js ''Example'') []"
  let ?r2 = "classifyUrl ?E2 freshClassifier freshWorld (js ''https://example.org/'') (js ''Example'') []"
  have k: "trim openRouterKey \<noteq> []"
    by (simp add: trim_openRouterKey openRouterKey_nonempty)
  have m: "js ''openai/gpt-4o'' \<noteq> []" by (simp add: js_def)
  have e1: "getApiKey ?E1 = Some openRouterKey" "clientError ?E1 ?cfg = None"
    "complete ?E1 0 ?req = Inl (APIError (Some 404) (js ''model not found''))"
    "chooseDefaultOpenRouterModel ?E1 (trim openRouterKey) = Some (js ''openai/gpt-4o'')"
    "complete ?E1 1 (?req\<lparr>reqModel := Some (js ''openai/gpt-4o'')\<rparr>)
       = Inl (APIError (Some 404) (js ''model not found''))"
    by (simp_all add: exampleEnv_def notFound_def)
  have e2: "getApiKey ?E2 = Some openRouterKey" "clientError ?E2 ?cfg = None"
    "complete ?E2 0 ?req = Inl (APIError (Some 404) (js ''model not found''))"
    "chooseDefaultOpenRouterModel ?E2 (trim openRouterKey) = None"
    by (simp_all add: exampleEnv_def notFound_def)
  have p1: "?r1 = (fst ?r1, fst (snd ?r1), snd (snd ?r1))"
    and p2: "?r2 = (fst ?r2, fst (snd ?r2), snd (snd ?r2))"
    by simp_all
  note t1 = classifyUrl_fallback_once
      [OF e1(1) k example_provider[symmetric] provider_names(1) refl e1(2) refl e1(3) p1]
  note t2 = classifyUrl_fallback_once
      [OF e2(1) k example_provider[symmetric] provider_names(1) refl e2(2) refl e2(3) p2]
  have a1: "calls (snd (snd ?r1)) = calls freshWorld @
       [LoadPreferences, Completion ?req, ClearSelectedModel, ChooseDefaultModel (trim openRouterKey),
        SetSelectedModel (js ''openai/gpt-4o''),
        Completion (?req\<lparr>reqModel := Some (js ''openai/gpt-4o'')\<rparr>)]"
    and a2: "fst ?r1 = Inl (Error (apiErrorMessage (Some 404) (js ''model not found'')))"
    using t1 e1(4,5) m by blast+
  have b1: "fst ?r2 = Inl (Error (classificationFailed noFallbackModel))"
    and b2: "persistedModel (snd (snd ?r2)) = None"
    using t2 e2(4) by blast+
  show ?thesis
    using k m e1(1,4) e2(4) provider_names(1) a1 a2 b1 b2 by simp
qed

text \<open>
  The claim C4 as it is written fails where both completion requests answer 404 and a
  fallback model is offered: the call ends with the message "API Error (404): model not
  found", which is not the message that no fallback model is available.
\<close>

theorem second_not_found_is_api_error:
  "fst (classifyUrl
          (exampleEnv (Some openRouterKey) (\<lambda>_. notFound) (Some (js ''openai/gpt-4o'')) (Inr JNull))
          freshClassifier freshWorld (js ''https://example.org/'') (js ''Example'') [])
     = Inl (Error (js ''API Error (404): model not found'')) \<and>
   js ''API Error (404): model not found'' \<noteq> noFallbackModel \<and>
   js ''API Error (404): model not found'' \<noteq> classificationFailed noFallbackModel"
proof -
  have "js ''OpenRouter'' \<noteq> js ''GitHub Copilot''" "js ''openai/gpt-4o'' \<noteq> []"
    by (simp_all add: js_def)
  then show ?thesis
    by (simp add: classifyUrl_def loadApiKey_def loadPreferences_def selectProvider_def spreadCopy_def
        runAttempts_def attemptClassification_def finishClassification_def translateError_def
        isNotFound_def clearSelectedOpenRouterModel_def setSelectedOpenRouterModel_def
        apiErrorMessage_def classificationFailed_def noFallbackModel_def decimal_404
        exampleEnv_def notFound_def freshClassifier_def freshWorld_def trim_openRouterKey
        openRouterKey_nonempty detect_openRouterKey openrouter_def Let_def)
       (simp add: js_def)
qed

section \<open>Supplements\<close>

lemma startsWith_both:
  "startsWith k p \<Longrightarrow> startsWith k q \<Longrightarrow> length q \<le> length p \<Longrightarrow> take (length q) p = q"
  unfolding startsWith_def by (metis min.absorb1 take_take)

text \<open>
  What \<open>detectProvider\<close> does with the prefix \<open>xai-\<close> in general: the length of the
  credential decides between Moonshot and Grok.
\<close>

lemma detectProvider_xai:
  assumes x: "startsWith k (js ''xai-'')" and o: "\<not> includes_str k (js ''openrouter'')"
  shows "detectProvider k =
     (if includes_str k (js ''kimi'') \<or> length k > 40 then moonshot else grok)"
proof -
  have "\<not> startsWith k (js ''gho_'')"
    using startsWith_both[OF x, of "js ''gho_''"] by (auto simp: js_def)
  moreover have "\<not> startsWith k (js ''gsk_'')"
    using startsWith_both[OF x, of "js ''gsk_''"] by (auto simp: js_def)
  moreover have "\<not> startsWith k (js ''github_pat_'')"
    using startsWith_both[OF _ x, of "js ''github_pat_''"] by (auto simp: js_def)
  moreover have "\<not> startsWith k (js ''sk-'')"
    using startsWith_both[OF x, of "js ''sk-''"] by (auto simp: js_def)
  moreover have "\<not> startsWith k (js ''sk-or-v1-'')"
    using startsWith_both[OF _ x, of "js ''sk-or-v1-''"] by (auto simp: js_def)
  ultimately show ?thesis
    using x o by (simp add: detectProvider_def)
qed

text \<open>
  Where every segment is its own stored title, resolving twice does agree: the path of the
  specification, \<open>["Coding", "Guides", "HTML"]\<close>, is created by the first call and found by
  the second.
\<close>

lemma normalize_plain:
  "normalizeFolderName latinTables (js ''Coding'') = js ''coding''"
  "normalizeFolderName latinTables (js ''Guides'') = js ''guides''"
  "normalizeFolderName latinTables (js ''HTML'') = js ''html''"
  by (simp_all add: normalizeFolderName_def latinTables_def string_eval)

lemma folderTitle_plain:
  "folderTitle (js ''Coding'') = js ''Coding''"
  "folderTitle (js ''Guides'') = js ''Guides''"
  "folderTitle (js ''HTML'') = js ''HTML''"
  by (simp_all add: folderTitle_def string_eval)

lemma decimal_7: "decimal 7 = js ''7''"
  by (simp add: decimal.simps js_def)

lemma ensureFolderPath_example_twice:
  "ensureFolderPath latinTables [js ''Coding'', js ''Guides'', js ''HTML''] chromeStore
     = Inr (js ''7'',
            withBar [Node (js ''5'') (js ''Coding'') None
                       [Node (js ''6'') (js ''Guides'') None
                          [Node (js ''7'') (js ''HTML'') None []]]] 8)"
  "ensureFolderPath latinTables [js ''Coding'', js ''Guides'', js ''HTML'']
       (withBar [Node (js ''5'') (js ''Coding'') None
                   [Node (js ''6'') (js ''Guides'') None
                      [Node (js ''7'') (js ''HTML'') None []]]] 8)
     = Inr (js ''7'',
            withBar [Node (js ''5'') (js ''Coding'') None
                       [Node (js ''6'') (js ''Guides'') None
                          [Node (js ''7'') (js ''HTML'') None []]]] 8)"
proof -
  have ne: "js ''0'' \<noteq> js ''1''" "js ''0'' \<noteq> js ''5''" "js ''1'' \<noteq> js ''5''"
    "js ''0'' \<noteq> js ''6''" "js ''1'' \<noteq> js ''6''" "js ''5'' \<noteq> js ''6''"
    "js ''coding'' \<noteq> js ''guides''" "js ''guides'' \<noteq> js ''html''"
    by (simp_all add: js_def)
  show "ensureFolderPath latinTables [js ''Coding'', js ''Guides'', js ''HTML''] chromeStore
     = Inr (js ''7'',
            withBar [Node (js ''5'') (js ''Coding'') None
                       [Node (js ''6'') (js ''Guides'') None
                          [Node (js ''7'') (js ''HTML'') None []]]] 8)"
    using ne
    by (simp add: ensureFolderPath_def findFolder_def getChildren_def createFolder_def
        chromeStore_def withBar_def normalize_plain folderTitle_plain decimal_5_6 decimal_7 Let_def)
  show "ensureFolderPath latinTables [js ''Coding'', js ''Guides'', js ''HTML'']
       (withBar [Node (js ''5'') (js ''Coding'') None
                   [Node (js ''6'') (js ''Guides'') None
                      [Node (js ''7'') (js ''HTML'') None []]]] 8)
     = Inr (js ''7'',
            withBar [Node (js ''5'') (js ''Coding'') None
                       [Node (js ''6'') (js ''Guides'') None
                          [Node (js ''7'') (js ''HTML'') None []]]] 8)"
    using ne
    by (simp add: ensureFolderPath_def findFolder_def getChildren_def createFolder_def
        withBar_def normalize_plain folderTitle_plain Let_def)
qed

text \<open>
  The two calls on the path \<open>["a /"]\<close> end in two folders with the Unicode data of any
  engine, not only with the Basic Latin tables: the path is plain ASCII.
\<close>

lemma normalize_a_slash_any:
  assumes "basicLatinData U"
  shows "normalizeFolderName U (js ''a /'') = js ''a ''"
    and "normalizeFolderName U (js ''a '') = js ''a''"
proof -
  have l: "toLowerCase U (js ''a /'') = js ''a /''" "toLowerCase U (js ''a '') = js ''a ''"
    by (subst basic_toLowerCase[OF assms]; simp add: string_eval)+
  have n: "normalizeNFKD U (js ''a '') = js ''a ''" "normalizeNFKD U (js ''a'') = js ''a''"
    by (rule basic_NFKD[OF assms]; simp add: js_def)+
  show "normalizeFolderName U (js ''a /'') = js ''a ''"
    using l(1) n(1) by (simp add: normalizeFolderName_def string_eval basic_letter[OF assms])
  show "normalizeFolderName U (js ''a '') = js ''a''"
    using l(2) n(2) by (simp add: normalizeFolderName_def string_eval basic_letter[OF assms])
qed

lemma ensureFolderPath_twice_differs_any:
  assumes "basicLatinData U"
  shows "ensureFolderPath U [js ''a /''] chromeStore
     = Inr (js ''5'', withBar [Node (js ''5'') (js ''a '') None []] 6)"
    and "ensureFolderPath U [js ''a /''] (withBar [Node (js ''5'') (js ''a '') None []] 6)
     = Inr (js ''6'', withBar [Node (js ''5'') (js ''a '') None [],
                               Node (js ''6'') (js ''a '') None []] 7)"
proof -
  have a: "js ''a '' \<noteq> js ''a''" "js ''0'' \<noteq> js ''1''" by (simp_all add: js_def)
  show "ensureFolderPath U [js ''a /''] chromeStore
     = Inr (js ''5'', withBar [Node (js ''5'') (js ''a '') None []] 6)"
    using a
    by (simp add: ensureFolderPath_def findFolder_def getChildren_def createFolder_def
        chromeStore_def withBar_def normalize_a_slash_any[OF assms] folderTitle_a_slash
        decimal_5_6 Let_def)
  show "ensureFolderPath U [js ''a /''] (withBar [Node (js ''5'') (js ''a '') None []] 6)
     = Inr (js ''6'', withBar [Node (js ''5'') (js ''a '') None [],
                               Node (js ''6'') (js ''a '') None []] 7)"
    using a
    by (simp add: ensureFolderPath_def findFolder_def getChildren_def createFolder_def
        withBar_def normalize_a_slash_any[OF assms] folderTitle_a_slash decimal_5_6 Let_def)
qed

text \<open>
  A stored provider preference that names an inherited property of the table, such as
  \<open>constructor\<close>, is taken instead of the detected provider, and the provider of the call has
  no name, no base URL and no model.
\<close>

lemma selectProvider_inherited_key:
  "selectProvider \<lparr>apiKey = k, providerOverride = Some (js ''constructor''),
                    selectedOpenRouterModel = m\<rparr> key
     = \<lparr>name = None, baseURL = None, model = None\<rparr>"
  by (simp add: selectProvider_def providers_def objectPrototypeKeys_def spreadCopy_def js_def
      Let_def split: option.splits)

end
